theory Spec2Isabelle
  imports Complex_Main
begin

section \<open>Two-dimensional arrays\<close>

text \<open>
  The notebook works on NumPy arrays of floats. A two-dimensional array is modelled with
  its shape and its rows; floats are modelled as real numbers (exact arithmetic), a
  one-dimensional array as a list of reals.
\<close>

datatype ndarray = NDArray (nrows: nat) (ncols: nat) (rows: "real list list")

type_synonym vec = "real list"

definition wf_arr :: "ndarray \<Rightarrow> bool" where
  "wf_arr A \<longleftrightarrow> length (rows A) = nrows A \<and> (\<forall>r \<in> set (rows A). length r = ncols A)"

definition ent :: "ndarray \<Rightarrow> nat \<Rightarrow> nat \<Rightarrow> real" where
  "ent A i j = rows A ! i ! j"

text \<open>The array of shape \<open>(r, c)\<close> whose entry \<open>(i, j)\<close> is \<open>f i j\<close>.\<close>

definition mk :: "nat \<Rightarrow> nat \<Rightarrow> (nat \<Rightarrow> nat \<Rightarrow> real) \<Rightarrow> ndarray" where
  "mk r c f = NDArray r c (map (\<lambda>i. map (f i) [0..<c]) [0..<r])"

text \<open>\<open>A.T\<close>\<close>

definition mT :: "ndarray \<Rightarrow> ndarray" where
  "mT A = mk (ncols A) (nrows A) (\<lambda>i j. ent A j i)"

text \<open>
  \<open>np.array(vs)\<close> for a list of equally long one-dimensional arrays: one row per element.
  For the empty list NumPy returns a one-dimensional array of shape \<open>(0,)\<close>, which this
  two-dimensional model shows as shape \<open>(0, 0)\<close>; callers that can reach it treat that
  case on its own.
\<close>

definition np_array :: "vec list \<Rightarrow> ndarray" where
  "np_array vs = NDArray (length vs) (case vs of [] \<Rightarrow> 0 | v # _ \<Rightarrow> length v) vs"

text \<open>Elementwise \<open>u - v\<close> of two one-dimensional arrays of equal length.\<close>

definition vsub :: "vec \<Rightarrow> vec \<Rightarrow> vec" where
  "vsub u v = map2 (-) u v"

section \<open>Geometry utilities\<close>

text \<open>
  \<^verbatim>\<open>def bar(A): return np.sum(A, axis=1)/A.shape[1]\<close>

  With \<open>A.shape[1] = 0\<close> NumPy divides by zero (giving \<open>nan\<close>); the claims about \<open>bar\<close>
  are stated for at least one column.
\<close>

definition bar :: "ndarray \<Rightarrow> vec" where
  "bar A = map (\<lambda>r. sum_list r / real (ncols A)) (rows A)"

text \<open>
  \<^verbatim>\<open>def barycentered(A):
    bar_A = bar(A)
    return np.array([vec - bar_A for vec in A.T]).T\<close>
\<close>

definition barycentered :: "ndarray \<Rightarrow> ndarray" where
  "barycentered A =
     (let bar_A = bar A
      in mT (np_array (map (\<lambda>vec. vsub vec bar_A) (rows (mT A)))))"

section \<open>NumPy operations used by the notebook\<close>

text \<open>
  \<open>A @ B\<close>. NumPy raises \<open>ValueError\<close> unless \<open>A.shape[1] = B.shape[0]\<close>; every product
  of the notebook has matching shapes when the library calls return arrays of their
  documented shapes, so the product is modelled by its entries.
\<close>

definition matmul :: "ndarray \<Rightarrow> ndarray \<Rightarrow> ndarray" where
  "matmul A B =
     mk (nrows A) (ncols B) (\<lambda>i j. sum_list (map (\<lambda>l. ent A i l * ent B l j) [0..<ncols A]))"

text \<open>\<open>np.zeros((r, c))\<close>, \<open>np.identity(n)\<close>, \<open>np.diag(v)\<close> for a one-dimensional \<open>v\<close>, \<open>np.trace(A)\<close>\<close>

definition np_zeros :: "nat \<Rightarrow> nat \<Rightarrow> ndarray" where
  "np_zeros r c = mk r c (\<lambda>i j. 0)"

definition np_identity :: "nat \<Rightarrow> ndarray" where
  "np_identity n = mk n n (\<lambda>i j. if i = j then 1 else 0)"

definition np_diag :: "vec \<Rightarrow> ndarray" where
  "np_diag v = mk (length v) (length v) (\<lambda>i j. if i = j then v ! i else 0)"

definition np_trace :: "ndarray \<Rightarrow> real" where
  "np_trace A = sum_list (map (\<lambda>i. ent A i i) [0..<min (nrows A) (ncols A)])"

text \<open>
  \<open>np.block([[A, B], [C, D]])\<close>: the rows of \<open>A\<close> and \<open>B\<close> side by side, above the rows of
  \<open>C\<close> and \<open>D\<close> side by side.
\<close>

definition np_block :: "ndarray \<Rightarrow> ndarray \<Rightarrow> ndarray \<Rightarrow> ndarray \<Rightarrow> ndarray" where
  "np_block A B C D =
     NDArray (nrows A + nrows C) (ncols A + ncols B)
       (map2 (@) (rows A) (rows B) @ map2 (@) (rows C) (rows D))"

text \<open>
  Indexing: \<open>A[:r]\<close> (leading rows), \<open>A[:, :c]\<close> (leading columns), \<open>A[ind]\<close> (rows picked
  by an index array) and \<open>A[:, ind]\<close> (columns picked by an index array). The index arrays
  of the notebook are the \<open>col_ind\<close> results of the SciPy assignment solvers, whose entries
  are indices in range, so they are modelled as lists of naturals.
\<close>

definition first_rows :: "nat \<Rightarrow> ndarray \<Rightarrow> ndarray" where
  "first_rows r A = NDArray (min r (nrows A)) (ncols A) (take r (rows A))"

definition first_cols :: "nat \<Rightarrow> ndarray \<Rightarrow> ndarray" where
  "first_cols c A = NDArray (nrows A) (min c (ncols A)) (map (take c) (rows A))"

definition take_rows :: "ndarray \<Rightarrow> nat list \<Rightarrow> ndarray" where
  "take_rows A ind = NDArray (length ind) (ncols A) (map (\<lambda>k. rows A ! k) ind)"

definition take_cols :: "ndarray \<Rightarrow> nat list \<Rightarrow> ndarray" where
  "take_cols A ind = NDArray (nrows A) (length ind) (map (\<lambda>r. map (\<lambda>k. r ! k) ind) (rows A))"

text \<open>\<open>w * A\<close> for a scalar \<open>w\<close>, \<open>w + A\<close> for a scalar \<open>w\<close>, and \<open>A + B\<close> for equal shapes.\<close>

definition smul :: "real \<Rightarrow> ndarray \<Rightarrow> ndarray" where
  "smul w A = mk (nrows A) (ncols A) (\<lambda>i j. w * ent A i j)"

definition sadd :: "real \<Rightarrow> ndarray \<Rightarrow> ndarray" where
  "sadd w A = mk (nrows A) (ncols A) (\<lambda>i j. w + ent A i j)"

definition madd :: "ndarray \<Rightarrow> ndarray \<Rightarrow> ndarray" where
  "madd A B = mk (nrows A) (ncols A) (\<lambda>i j. ent A i j + ent B i j)"

text \<open>\<open>A @ v\<close> for a one-dimensional \<open>v\<close>, and the inner product of two one-dimensional arrays.\<close>

definition matvec :: "ndarray \<Rightarrow> vec \<Rightarrow> vec" where
  "matvec A v = map (\<lambda>i. sum_list (map (\<lambda>j. ent A i j * v ! j) [0..<ncols A])) [0..<nrows A]"

definition dotp :: "vec \<Rightarrow> vec \<Rightarrow> real" where
  "dotp u v = sum_list (map (\<lambda>j. u ! j * v ! j) [0..<length u])"

section \<open>Library calls\<close>

text \<open>
  \<open>np.linalg.svd\<close>, \<open>np.linalg.inv\<close>, \<open>scipy.optimize.quadratic_assignment\<close> and
  \<open>scipy.optimize.linear_sum_assignment\<close> are library code. The notebook's functions take
  them as parameters here; what the libraries document about their results is written as
  predicates, which the theorems assume of the calls they depend on.
\<close>

datatype error = AssertionError string | LinAlgError | ValueError

type_synonym svd_fun = "ndarray \<Rightarrow> ndarray \<times> vec \<times> ndarray"
type_synonym inv_fun = "ndarray \<Rightarrow> error + ndarray"
type_synonym qap_fun = "nat \<Rightarrow> ndarray \<Rightarrow> ndarray \<Rightarrow> nat list"
type_synonym lsa_fun = "ndarray \<Rightarrow> nat list \<times> nat list"

definition orthogonal :: "ndarray \<Rightarrow> bool" where
  "orthogonal Q \<longleftrightarrow> wf_arr Q \<and> nrows Q = ncols Q
     \<and> matmul Q (mT Q) = np_identity (nrows Q) \<and> matmul (mT Q) Q = np_identity (nrows Q)"

definition diag_rect :: "nat \<Rightarrow> nat \<Rightarrow> vec \<Rightarrow> ndarray" where
  "diag_rect d k s = mk d k (\<lambda>i j. if i = j then s ! i else 0)"

text \<open>
  \<open>U, S, Vh = np.linalg.svd(X)\<close> (full matrices): \<open>U\<close> and \<open>Vh\<close> are orthogonal of sizes
  \<open>d\<close> and \<open>k\<close>, \<open>S\<close> holds the \<open>min d k\<close> singular values, nonnegative and in descending
  order, and \<open>X = U \<Sigma> Vh\<close> for the \<open>d \<times> k\<close> array \<open>\<Sigma>\<close> with \<open>S\<close> on its diagonal.
\<close>

definition is_svd :: "ndarray \<Rightarrow> ndarray \<times> vec \<times> ndarray \<Rightarrow> bool" where
  "is_svd X usv \<longleftrightarrow>
     (case usv of (U, S, Vh) \<Rightarrow>
        orthogonal U \<and> nrows U = nrows X \<and> orthogonal Vh \<and> nrows Vh = ncols X
      \<and> length S = min (nrows X) (ncols X) \<and> (\<forall>x \<in> set S. 0 \<le> x) \<and> sorted (rev S)
      \<and> X = matmul (matmul U (diag_rect (nrows X) (ncols X) S)) Vh)"

text \<open>
  \<open>np.linalg.inv(A)\<close> returns the inverse of a square array and raises \<open>LinAlgError\<close> when
  there is none.
\<close>

definition is_inverse :: "ndarray \<Rightarrow> ndarray \<Rightarrow> bool" where
  "is_inverse A B \<longleftrightarrow> wf_arr B \<and> nrows B = nrows A \<and> ncols B = nrows A
     \<and> matmul A B = np_identity (nrows A) \<and> matmul B A = np_identity (nrows A)"

definition singular :: "ndarray \<Rightarrow> bool" where
  "singular A \<longleftrightarrow> (\<forall>B. \<not> is_inverse A B)"

definition inv_spec :: "inv_fun \<Rightarrow> ndarray \<Rightarrow> bool" where
  "inv_spec linv A \<longleftrightarrow>
     (case linv A of Inr B \<Rightarrow> is_inverse A B | Inl e \<Rightarrow> e = LinAlgError \<and> singular A)"

section \<open>Kernel-projection builder\<close>

text \<open>
  \<^verbatim>\<open>def ortho_proj_ker(X):
    Ux, Sigmax, Vx = np.linalg.svd(X)
    rank = Sigmax.shape[0]
    ker = Vx[:rank]
    proj = ker.T @ ker
    return proj\<close>
\<close>

definition ortho_proj_ker :: "svd_fun \<Rightarrow> ndarray \<Rightarrow> ndarray" where
  "ortho_proj_ker svd X =
     (case svd X of (Ux, Sigmax, Vx) \<Rightarrow>
        let rank = length Sigmax;
            ker = first_rows rank Vx;
            proj = matmul (mT ker) ker
        in proj)"

section \<open>Ellipsoid fit\<close>

text \<open>
  \<^verbatim>\<open>def psd_fit(X, Y):
    Ux, Sigma_x, _ = np.linalg.svd(X)
    Uy, Sigma_y, _ = np.linalg.svd(Y)
    Lx = Ux @ np.diag(Sigma_x)
    Ly = Uy @ np.diag(Sigma_y)
    Lxy = Lx.T @ Ly
    W, Sigma, V = np.linalg.svd(Lxy)
    P = W @ np.diag(Sigma) @ W.T
    Lx_inv = np.linalg.inv(Lx)
    P = Lx_inv.T @ P @ Lx_inv
    return P\<close>
  (\<open>Sigma_xy\<close> stands for the source's \<open>Sigma\<close>).
\<close>

definition psd_fit :: "svd_fun \<Rightarrow> inv_fun \<Rightarrow> ndarray \<Rightarrow> ndarray \<Rightarrow> error + ndarray" where
  "psd_fit svd linv X Y =
     (case svd X of (Ux, Sigma_x, _) \<Rightarrow>
       (case svd Y of (Uy, Sigma_y, _) \<Rightarrow>
          let Lx = matmul Ux (np_diag Sigma_x);
              Ly = matmul Uy (np_diag Sigma_y);
              Lxy = matmul (mT Lx) Ly
          in (case svd Lxy of (W, Sigma_xy, V) \<Rightarrow>
                let P = matmul (matmul W (np_diag Sigma_xy)) (mT W)
                in (case linv Lx of
                      Inl e \<Rightarrow> Inl e
                    | Inr Lx_inv \<Rightarrow> Inr (matmul (matmul (mT Lx_inv) P) Lx_inv)))))"

section \<open>The matching pipeline\<close>

definition dim :: nat where
  "dim = 3"

text \<open>
  The padding of \<open>granni_point_clouds\<close>:
  \<^verbatim>\<open>o  = np.zeros((num_y-num_x, num_y-num_x))
oo = np.zeros((num_y-num_x, num_x))
Px = np.block([[Px, oo.T],[oo, o]])\<close>
  (\<open>oz\<close> stands for the source's \<open>o\<close>).
\<close>

definition pad :: "nat \<Rightarrow> nat \<Rightarrow> ndarray \<Rightarrow> ndarray" where
  "pad num_x num_y Px =
     (let oz = np_zeros (num_y - num_x) (num_y - num_x);
          oo = np_zeros (num_y - num_x) num_x
      in np_block Px (mT oo) oo oz)"

text \<open>
  One trial. The first parameter stands for reseeding with \<open>i\<close> and running the assignment
  heuristic, which returns its \<open>col_ind\<close>:
  \<^verbatim>\<open>def f_opt(i):
    np.random.seed(i)
    sol = opt.quadratic_assignment(Px, Py, method="faq", options = {...})
    ind = sol['col_ind']
    s = I[ind]
    weight = np.exp(-1000.0*(np.trace(Px @ s @ Py @ s.T) - dim)**2)
    return weight, s, i\<close>
\<close>

definition f_opt :: "qap_fun \<Rightarrow> ndarray \<Rightarrow> ndarray \<Rightarrow> ndarray \<Rightarrow> nat \<Rightarrow> real \<times> ndarray \<times> nat" where
  "f_opt qap Px Py I i =
     (let ind = qap i Px Py;
          s = take_rows I ind;
          weight = exp (- 1000 * (np_trace (matmul (matmul (matmul Px s) Py) (mT s)) - real dim)\<^sup>2)
      in (weight, s, i))"

text \<open>
  \<open>sum([v[0]*v[1] for v in vals])\<close>: Python's \<open>sum\<close> starts from the integer 0 and adds the
  elements from the left; for an empty list the result is the integer 0, not an array.
\<close>

definition py_sum :: "ndarray list \<Rightarrow> ndarray option" where
  "py_sum ms = (case ms of [] \<Rightarrow> None | m # ms' \<Rightarrow> Some (foldl madd (sadd 0 m) ms'))"

text \<open>The steps of the pipeline, logged in the order in which they run.\<close>

datatype event = Centered | Projector | Trial nat | Assignment | Inversion

text \<open>
  The middle of \<open>granni_point_clouds\<close>, from the centered samples to the weighted sum of
  the trials' permutation matrices: the two projectors, padding,
  \<open>pool.map(f_opt, range(n_iter))\<close> (which returns the results in the order of the trial
  indices) and \<open>mat = sum([v[0]*v[1] for v in vals])\<close>. Centering keeps the shape, so
  \<open>num_x\<close> and \<open>num_y\<close> are read off the centered arrays here.
\<close>

definition aggregated_matrix :: "svd_fun \<Rightarrow> qap_fun \<Rightarrow> ndarray \<Rightarrow> ndarray \<Rightarrow> nat \<Rightarrow> ndarray option" where
  "aggregated_matrix svd qap X Y n_iter =
     (let num_x = ncols X; num_y = ncols Y;
          Px = ortho_proj_ker svd X;
          Px = pad num_x num_y Px;
          Py = ortho_proj_ker svd Y;
          I = np_identity num_y;
          vals = map (f_opt qap Px Py I) [0..<n_iter]
      in py_sum (map (\<lambda>v. smul (fst v) (fst (snd v))) vals))"

text \<open>
  \<open>granni_point_clouds\<close> from the point where the two samples \<open>X\<close> and \<open>Y\<close> (arrays with one
  column per point) have been drawn; \<open>L\<close> is the random transform the function made
  before and returns unchanged. In order: the three \<open>assert\<close>s; centering; the projectors
  (an empty sample makes \<open>np.array\<close> in \<open>barycentered\<close> return a one-dimensional array,
  which \<open>np.linalg.svd\<close> rejects with \<open>LinAlgError\<close>); the trials and their weighted sum
  (\<open>linear_sum_assignment\<close> rejects the integer 0 of an empty sum with \<open>ValueError\<close>); the
  linear assignment; the least-squares map
  \<open>L0 = Y[:, col_ind][:, :num_x] @ X.T @ np.linalg.inv(X @ X.T)\<close>.
\<close>

definition granni_point_clouds ::
  "svd_fun \<Rightarrow> qap_fun \<Rightarrow> lsa_fun \<Rightarrow> inv_fun \<Rightarrow> ndarray \<Rightarrow> ndarray \<Rightarrow> ndarray \<Rightarrow> nat
     \<Rightarrow> event list \<times> (error + ndarray \<times> ndarray)" where
  "granni_point_clouds svd qap lsa linv L X Y n_iter =
     (let num_x = ncols X; num_y = ncols Y in
      if \<not> (dim = nrows X \<and> nrows X = 3) then ([], Inl (AssertionError ''dim == X.shape[0] == 3''))
      else if \<not> (dim = nrows Y \<and> nrows Y = 3) then ([], Inl (AssertionError ''dim == Y.shape[0] == 3''))
      else if \<not> num_x \<le> num_y then ([], Inl (AssertionError ''num_x <= num_y''))
      else if num_x = 0 then ([Centered, Centered], Inl LinAlgError)
      else
        let X = barycentered X;
            Y = barycentered Y;
            steps = [Centered, Centered, Projector, Projector] @ map Trial [0..<n_iter]
        in (case aggregated_matrix svd qap X Y n_iter of
              None \<Rightarrow> (steps, Inl ValueError)
            | Some mat \<Rightarrow>
                (case lsa mat of (row_ind, col_ind) \<Rightarrow>
                   let M = matmul (first_cols num_x (take_cols Y col_ind)) (mT X)
                   in (case linv (matmul X (mT X)) of
                         Inl e \<Rightarrow> (steps @ [Assignment, Inversion], Inl e)
                       | Inr Xi \<Rightarrow> (steps @ [Assignment, Inversion], Inr (L, matmul M Xi))))))"

section \<open>Notions the claims are stated with\<close>

text \<open>An index array that is a permutation of \<open>0, \<dots>, m - 1\<close>.\<close>

definition is_perm :: "nat \<Rightarrow> nat list \<Rightarrow> bool" where
  "is_perm m ind \<longleftrightarrow> length ind = m \<and> distinct ind \<and> set ind = {..<m}"

text \<open>
  \<open>quadratic_assignment\<close> returns in \<open>col_ind\<close> a permutation of the indices of its square
  arguments; \<open>linear_sum_assignment\<close> on a square array returns the row indices in order
  and a permutation as column indices.
\<close>

definition qap_spec :: "qap_fun \<Rightarrow> bool" where
  "qap_spec qap \<longleftrightarrow> (\<forall>i A B. is_perm (nrows A) (qap i A B))"

definition lsa_spec :: "lsa_fun \<Rightarrow> bool" where
  "lsa_spec lsa \<longleftrightarrow> (\<forall>M. fst (lsa M) = [0..<nrows M] \<and> is_perm (nrows M) (snd (lsa M)))"

text \<open>
  The columns of \<open>Y\<close> selected by the first \<open>n\<close> entries of \<open>col_ind\<close>, in the order of the
  rows \<open>0, \<dots>, n - 1\<close> of the assignment.
\<close>

definition Y_matched :: "ndarray \<Rightarrow> nat list \<Rightarrow> nat \<Rightarrow> ndarray" where
  "Y_matched Y col_ind n = mk (nrows Y) n (\<lambda>i j. ent Y i (col_ind ! j))"

text \<open>The \<open>q\<close>-th unit vector of length \<open>n\<close>.\<close>

definition unit_vec :: "nat \<Rightarrow> nat \<Rightarrow> vec" where
  "unit_vec n q = map (\<lambda>i. if i = q then 1 else 0) [0..<n]"

definition symmetric :: "ndarray \<Rightarrow> bool" where
  "symmetric P \<longleftrightarrow> mT P = P"

definition idempotent :: "ndarray \<Rightarrow> bool" where
  "idempotent P \<longleftrightarrow> matmul P P = P"

definition zero_vec :: "nat \<Rightarrow> vec" where
  "zero_vec n = replicate n 0"

text \<open>The linear combination \<open>\<Sum>i. cs ! i * bs ! i\<close> of vectors of length \<open>k\<close>.\<close>

definition lincomb :: "nat \<Rightarrow> real list \<Rightarrow> vec list \<Rightarrow> vec" where
  "lincomb k cs bs = map (\<lambda>j. sum_list (map (\<lambda>i. cs ! i * bs ! i ! j) [0..<length bs])) [0..<k]"

definition lin_indep :: "nat \<Rightarrow> vec list \<Rightarrow> bool" where
  "lin_indep k bs \<longleftrightarrow>
     (\<forall>cs. length cs = length bs \<and> lincomb k cs bs = zero_vec k \<longrightarrow> (\<forall>c \<in> set cs. c = 0))"

text \<open>
  \<open>P\<close> has rank \<open>r\<close>: its image \<open>{P v}\<close> has a basis of \<open>r\<close> vectors, that is \<open>r\<close> linearly
  independent vectors of the image of which every \<open>P v\<close> is a linear combination.
\<close>

definition has_rank :: "ndarray \<Rightarrow> nat \<Rightarrow> bool" where
  "has_rank P r \<longleftrightarrow>
     (\<exists>bs. length bs = r \<and> (\<forall>b \<in> set bs. length b = nrows P) \<and> lin_indep (nrows P) bs
        \<and> (\<forall>b \<in> set bs. \<exists>v. length v = ncols P \<and> matvec P v = b)
        \<and> (\<forall>v. length v = ncols P \<longrightarrow> (\<exists>cs. length cs = r \<and> matvec P v = lincomb (nrows P) cs bs)))"

text \<open>The determinant of a \<open>3 \<times> 3\<close> array.\<close>

definition det3 :: "ndarray \<Rightarrow> real" where
  "det3 A = ent A 0 0 * (ent A 1 1 * ent A 2 2 - ent A 1 2 * ent A 2 1)
          - ent A 0 1 * (ent A 1 0 * ent A 2 2 - ent A 1 2 * ent A 2 0)
          + ent A 0 2 * (ent A 1 0 * ent A 2 1 - ent A 1 1 * ent A 2 0)"

text \<open>Positive semidefinite: symmetric with \<open>v\<^sup>T P v \<ge> 0\<close> for every \<open>v\<close>.\<close>

definition psd :: "ndarray \<Rightarrow> bool" where
  "psd P \<longleftrightarrow> symmetric P \<and> (\<forall>v. length v = ncols P \<longrightarrow> 0 \<le> dotp v (matvec P v))"

text \<open>\<open>Lx = Ux @ np.diag(Sigma_x)\<close> of \<open>psd_fit\<close>, from the decomposition of \<open>X\<close>.\<close>

definition left_factor :: "svd_fun \<Rightarrow> ndarray \<Rightarrow> ndarray" where
  "left_factor svd X = (case svd X of (U, S, V) \<Rightarrow> matmul U (np_diag S))"

section \<open>Example inputs\<close>

text \<open>
  A centered sample of four points in space with orthogonal coordinate rows, a singular
  value decomposition of it, and library stand-ins that return the identity assignment.
\<close>

definition X0 :: ndarray where
  "X0 = NDArray 3 4 [[1, 1, -1, -1], [1, -1, 1, -1], [1, -1, -1, 1]]"

definition U0 :: ndarray where
  "U0 = NDArray 3 3 [[1, 0, 0], [0, 1, 0], [0, 0, 1]]"

definition S0 :: vec where
  "S0 = [2, 2, 2]"

definition V0 :: ndarray where
  "V0 = NDArray 4 4 [[1/2, 1/2, -1/2, -1/2], [1/2, -1/2, 1/2, -1/2],
                     [1/2, -1/2, -1/2, 1/2], [1/2, 1/2, 1/2, 1/2]]"

text \<open>Four coplanar points: the third coordinate row is zero, so \<open>X X\<^sup>T\<close> is singular.\<close>

definition Xd :: ndarray where
  "Xd = NDArray 3 4 [[1, 1, -1, -1], [1, -1, 1, -1], [0, 0, 0, 0]]"

definition Sd :: vec where
  "Sd = [2, 2, 0]"

definition svd0 :: svd_fun where
  "svd0 A = (U0, if A = Xd then Sd else S0, V0)"

text \<open>The sample \<open>X0\<close> mapped by \<open>L2\<close>, twice the identity.\<close>

definition L2 :: ndarray where
  "L2 = NDArray 3 3 [[2, 0, 0], [0, 2, 0], [0, 0, 2]]"

definition Y0 :: ndarray where
  "Y0 = NDArray 3 4 [[2, 2, -2, -2], [2, -2, 2, -2], [2, -2, -2, 2]]"

definition inv0 :: inv_fun where
  "inv0 A = (if A = NDArray 3 3 [[4, 0, 0], [0, 4, 0], [0, 0, 4]]
             then Inr (NDArray 3 3 [[1/4, 0, 0], [0, 1/4, 0], [0, 0, 1/4]])
             else Inl LinAlgError)"

definition P0 :: ndarray where
  "P0 = NDArray 4 4 [[3/4, -1/4, -1/4, -1/4], [-1/4, 3/4, -1/4, -1/4],
                     [-1/4, -1/4, 3/4, -1/4], [-1/4, -1/4, -1/4, 3/4]]"

definition I4 :: ndarray where
  "I4 = NDArray 4 4 [[1, 0, 0, 0], [0, 1, 0, 0], [0, 0, 1, 0], [0, 0, 0, 1]]"

definition qap0 :: qap_fun where
  "qap0 i A B = [0..<nrows A]"

definition lsa0 :: lsa_fun where
  "lsa0 M = ([0..<nrows M], [0..<nrows M])"

definition P2 :: ndarray where
  "P2 = NDArray 2 2 [[1, 2], [3, 4]]"

definition Y1 :: ndarray where
  "Y1 = NDArray 3 1 [[1], [2], [3]]"

text \<open>Intermediate values of the pipeline on these inputs.\<close>

definition M2 :: ndarray where
  "M2 = NDArray 4 4 [[2, 0, 0, 0], [0, 2, 0, 0], [0, 0, 2, 0], [0, 0, 0, 2]]"

definition G4 :: ndarray where
  "G4 = NDArray 3 3 [[4, 0, 0], [0, 4, 0], [0, 0, 4]]"

definition G4i :: ndarray where
  "G4i = NDArray 3 3 [[1/4, 0, 0], [0, 1/4, 0], [0, 0, 1/4]]"

definition Gd :: ndarray where
  "Gd = NDArray 3 3 [[4, 0, 0], [0, 4, 0], [0, 0, 0]]"

text \<open>Decompositions and an inverse for the ellipsoid fit of \<open>X0\<close> to \<open>Y0\<close>.\<close>

definition L4 :: ndarray where
  "L4 = NDArray 3 3 [[4, 0, 0], [0, 4, 0], [0, 0, 4]]"

definition L8 :: ndarray where
  "L8 = NDArray 3 3 [[8, 0, 0], [0, 8, 0], [0, 0, 8]]"

definition Lh :: ndarray where
  "Lh = NDArray 3 3 [[1/2, 0, 0], [0, 1/2, 0], [0, 0, 1/2]]"

definition svd1 :: svd_fun where
  "svd1 A = (if A = X0 then (U0, S0, V0)
             else if A = Y0 then (U0, [4, 4, 4], V0)
             else (U0, [8, 8, 8], U0))"

definition inv1 :: inv_fun where
  "inv1 A = (if A = L2 then Inr Lh else Inl LinAlgError)"

text \<open>
  A sample \<open>Y5\<close> of five points: the origin and the points of \<open>X0\<close> mapped by \<open>L3\<close>, in
  another order; a decomposition of it; the order \<open>p5\<close> as the solvers' assignment; and
  the intermediate values of the pipeline on \<open>X0\<close> and \<open>Y5\<close>.
\<close>

definition p5 :: "nat list" where
  "p5 = [2, 4, 1, 3, 0]"

definition Y5 :: ndarray where
  "Y5 = NDArray 3 5 [[0, -2, 2, -2, 2], [0, 1, 1, -1, -1], [0, -1, 1, 1, -1]]"

definition V5 :: ndarray where
  "V5 = NDArray 5 5 [[0, -1/2, 1/2, -1/2, 1/2], [0, 1/2, 1/2, -1/2, -1/2],
                     [0, -1/2, 1/2, 1/2, -1/2], [0, 1/2, 1/2, 1/2, 1/2], [1, 0, 0, 0, 0]]"

definition svd2 :: svd_fun where
  "svd2 A = (if A = Y5 then (U0, [4, 2, 2], V5) else (U0, S0, V0))"

definition qap1 :: qap_fun where
  "qap1 i A B = (if nrows A = 5 then p5 else [0..<nrows A])"

definition lsa1 :: lsa_fun where
  "lsa1 M = ([0..<nrows M], if nrows M = 5 then p5 else [0..<nrows M])"

definition L3 :: ndarray where
  "L3 = NDArray 3 3 [[2, 0, 0], [0, 1, 0], [0, 0, 1]]"

definition P5 :: ndarray where
  "P5 = NDArray 5 5 [[0, 0, 0, 0, 0], [0, 3/4, -1/4, -1/4, -1/4], [0, -1/4, 3/4, -1/4, -1/4],
                     [0, -1/4, -1/4, 3/4, -1/4], [0, -1/4, -1/4, -1/4, 3/4]]"

definition Q5 :: ndarray where
  "Q5 = NDArray 5 5 [[3/4, -1/4, -1/4, -1/4, 0], [-1/4, 3/4, -1/4, -1/4, 0],
                     [-1/4, -1/4, 3/4, -1/4, 0], [-1/4, -1/4, -1/4, 3/4, 0], [0, 0, 0, 0, 0]]"

definition I5 :: ndarray where
  "I5 = NDArray 5 5 [[1, 0, 0, 0, 0], [0, 1, 0, 0, 0], [0, 0, 1, 0, 0], [0, 0, 0, 1, 0],
                     [0, 0, 0, 0, 1]]"

definition T5 :: ndarray where
  "T5 = NDArray 5 5 [[0, 0, 1, 0, 0], [0, 0, 0, 0, 1], [0, 1, 0, 0, 0], [0, 0, 0, 1, 0],
                     [1, 0, 0, 0, 0]]"

definition M5 :: ndarray where
  "M5 = NDArray 5 5 [[0, 0, 2, 0, 0], [0, 0, 0, 0, 2], [0, 2, 0, 0, 0], [0, 0, 0, 2, 0],
                     [2, 0, 0, 0, 0]]"

definition Ym5 :: ndarray where
  "Ym5 = NDArray 3 4 [[2, 2, -2, -2], [1, -1, 1, -1], [1, -1, -1, 1]]"

text \<open>A single point, centered, with its decomposition.\<close>

definition N1 :: ndarray where
  "N1 = NDArray 1 1 [[1]]"

definition Z1 :: ndarray where
  "Z1 = NDArray 3 1 [[0], [0], [0]]"

definition Z3 :: ndarray where
  "Z3 = NDArray 3 3 [[0, 0, 0], [0, 0, 0], [0, 0, 0]]"

definition svd3 :: svd_fun where
  "svd3 A = (if ncols A = 1 then (U0, [0], N1) else (U0, S0, V0))"

section \<open>Basic facts about arrays\<close>

lemma nrows_mk [simp]: "nrows (mk r c f) = r"
  by (simp add: mk_def)

lemma ncols_mk [simp]: "ncols (mk r c f) = c"
  by (simp add: mk_def)

lemma at_mk [simp]: "i < r \<Longrightarrow> j < c \<Longrightarrow> ent (mk r c f) i j = f i j"
  by (simp add: mk_def ent_def)

lemma wf_mk [simp]: "wf_arr (mk r c f)"
  by (auto simp: mk_def wf_arr_def)

lemma length_rows_mk [simp]: "length (rows (mk r c f)) = r"
  by (simp add: mk_def)

lemma rows_mk_nth [simp]: "i < r \<Longrightarrow> rows (mk r c f) ! i = map (f i) [0..<c]"
  by (simp add: mk_def)

lemma mk_cong: "(\<And>i j. i < r \<Longrightarrow> j < c \<Longrightarrow> f i j = g i j) \<Longrightarrow> mk r c f = mk r c g"
  by (simp add: mk_def)

lemma mk_eq_iff: "mk r c f = mk r c g \<longleftrightarrow> (\<forall>i<r. \<forall>j<c. f i j = g i j)"
proof
  assume eq: "mk r c f = mk r c g"
  show "\<forall>i<r. \<forall>j<c. f i j = g i j"
  proof (intro allI impI)
    fix i j assume "i < r" "j < c"
    then have "ent (mk r c f) i j = f i j" "ent (mk r c g) i j = g i j" by simp_all
    with eq show "f i j = g i j" by simp
  qed
next
  assume "\<forall>i<r. \<forall>j<c. f i j = g i j"
  then show "mk r c f = mk r c g" by (intro mk_cong) simp
qed

lemma wf_eq_mk: assumes "wf_arr A" shows "A = mk (nrows A) (ncols A) (ent A)"
proof -
  have len: "length (rows A) = nrows A" and row: "\<And>i. i < nrows A \<Longrightarrow> length (rows A ! i) = ncols A"
    using assms by (auto simp: wf_arr_def)
  have "rows A = map (\<lambda>i. map (ent A i) [0..<ncols A]) [0..<nrows A]"
  proof (rule nth_equalityI)
    show "length (rows A) = length (map (\<lambda>i. map (ent A i) [0..<ncols A]) [0..<nrows A])"
      by (simp add: len)
  next
    fix i assume "i < length (rows A)"
    then have i: "i < nrows A" by (simp add: len)
    have "rows A ! i = map (ent A i) [0..<ncols A]"
      by (rule nth_equalityI) (simp_all add: row [OF i] ent_def)
    with i show "rows A ! i = map (\<lambda>i. map (ent A i) [0..<ncols A]) [0..<nrows A] ! i"
      by simp
  qed
  then show ?thesis by (cases A) (simp add: mk_def)
qed

lemma ndarray_eqI:
  assumes "wf_arr A" "wf_arr B" "nrows A = nrows B" "ncols A = ncols B"
    and "\<And>i j. i < nrows A \<Longrightarrow> j < ncols A \<Longrightarrow> ent A i j = ent B i j"
  shows "A = B"
proof -
  have "mk (nrows A) (ncols A) (ent A) = mk (nrows A) (ncols A) (ent B)"
    by (rule mk_cong) (rule assms(5))
  then show ?thesis
    using wf_eq_mk [OF assms(1)] wf_eq_mk [OF assms(2)] assms(3,4) by simp
qed

lemma sum_list_tab: "sum_list (map f [0..<n]) = (\<Sum>j<n. f j)"
  by (simp add: interv_sum_list_conv_sum_set_nat atLeast0LessThan)

lemma nrows_T [simp]: "nrows (mT A) = ncols A"
  by (simp add: mT_def)

lemma ncols_T [simp]: "ncols (mT A) = nrows A"
  by (simp add: mT_def)

lemma wf_T [simp]: "wf_arr (mT A)"
  by (simp add: mT_def)

lemma at_T [simp]: "i < ncols A \<Longrightarrow> j < nrows A \<Longrightarrow> ent (mT A) i j = ent A j i"
  by (simp add: mT_def)

lemma T_T: "wf_arr A \<Longrightarrow> mT (mT A) = A"
  by (rule ndarray_eqI) simp_all

section \<open>Centering\<close>

lemma length_bar: "wf_arr A \<Longrightarrow> length (bar A) = nrows A"
  by (simp add: bar_def wf_arr_def)

lemma bar_nth:
  assumes "wf_arr A" "i < nrows A"
  shows "bar A ! i = (\<Sum>j<ncols A. ent A i j) / real (ncols A)"
proof -
  have "rows A ! i = map (ent A i) [0..<ncols A]"
    using wf_eq_mk [OF assms(1)] assms(2) by (metis rows_mk_nth)
  then have "sum_list (rows A ! i) = (\<Sum>j<ncols A. ent A i j)"
    by (simp add: sum_list_tab)
  then show ?thesis using assms by (simp add: bar_def wf_arr_def)
qed

lemma barycentered_eq_mk:
  assumes "wf_arr A" "0 < ncols A"
  shows "barycentered A = mk (nrows A) (ncols A) (\<lambda>i j. ent A i j - bar A ! i)"
proof -
  let ?vs = "map (\<lambda>vec. vsub vec (bar A)) (rows (mT A))"
  let ?B = "np_array ?vs"
  have lvs: "length ?vs = ncols A" by (simp add: mT_def)
  have row: "?vs ! j = map (\<lambda>i. ent A i j - bar A ! i) [0..<nrows A]" if "j < ncols A" for j
  proof -
    have "rows (mT A) ! j = map (\<lambda>i. ent A i j) [0..<nrows A]"
      using that by (simp add: mT_def)
    then show ?thesis
      using that assms(1)
      by (auto simp: vsub_def mT_def length_bar intro!: nth_equalityI)
  qed
  have "?vs \<noteq> []" using lvs assms(2) by auto
  then obtain v vs' where vs: "?vs = v # vs'" by (cases ?vs) auto
  have "v = ?vs ! 0" by (simp add: vs)
  then have lv: "length v = nrows A" using row [OF assms(2)] by simp
  have nB: "nrows ?B = ncols A" unfolding np_array_def using lvs by simp
  have cB: "ncols ?B = nrows A" unfolding np_array_def vs using lv by simp
  have atB: "ent ?B j i = ent A i j - bar A ! i" if "j < ncols A" "i < nrows A" for i j
    using row [OF that(1)] that(2) by (simp add: ent_def np_array_def)
  have "barycentered A = mT ?B" by (simp add: barycentered_def)
  also have "\<dots> = mk (nrows A) (ncols A) (\<lambda>i j. ent ?B j i)"
    using nB cB by (simp add: mT_def [of ?B])
  also have "\<dots> = mk (nrows A) (ncols A) (\<lambda>i j. ent A i j - bar A ! i)"
    by (rule mk_cong) (simp add: atB)
  finally show ?thesis .
qed

lemma bar_barycentered_nth:
  assumes "wf_arr A" "0 < ncols A" "i < nrows A"
  shows "bar (barycentered A) ! i = 0"
proof -
  let ?n = "ncols A"
  let ?C = "mk (nrows A) ?n (\<lambda>i j. ent A i j - bar A ! i)"
  have "bar ?C ! i = (\<Sum>j<?n. ent ?C i j) / real ?n"
    using assms(3) by (simp add: bar_nth)
  also have "(\<Sum>j<?n. ent ?C i j) = (\<Sum>j<?n. ent A i j - bar A ! i)"
    using assms(3) by (intro sum.cong) simp_all
  also have "\<dots> = (\<Sum>j<?n. ent A i j) - real ?n * (bar A ! i)"
    by (simp add: sum_subtractf)
  also have "real ?n * (bar A ! i) = (\<Sum>j<?n. ent A i j)"
    using assms by (simp add: bar_nth)
  finally show ?thesis
    using assms by (simp add: barycentered_eq_mk)
qed

text \<open>
  C9. For a \<open>d \<times> n\<close> array with \<open>n \<ge> 1\<close>, the barycenter of the centered array is the zero
  vector, and centering a centered array changes nothing. The functions build fresh
  arrays from \<open>A\<close> and return them, so \<open>A\<close> itself is the same before and after.
\<close>

theorem barycentered_centered_idempotent:
  assumes "wf_arr A" "0 < ncols A"
  shows "bar (barycentered A) = replicate (nrows A) 0
       \<and> barycentered (barycentered A) = barycentered A"
proof
  let ?C = "barycentered A"
  have C: "?C = mk (nrows A) (ncols A) (\<lambda>i j. ent A i j - bar A ! i)"
    by (rule barycentered_eq_mk [OF assms])
  have wfC: "wf_arr ?C" and nC: "nrows ?C = nrows A" and cC: "ncols ?C = ncols A"
    by (simp_all add: C)
  show zero: "bar ?C = replicate (nrows A) 0"
  proof (rule nth_equalityI)
    show "length (bar ?C) = length (replicate (nrows A) (0::real))"
      using length_bar [OF wfC] nC by simp
  next
    fix i assume "i < length (bar ?C)"
    then have "i < nrows A" using length_bar [OF wfC] nC by simp
    then show "bar ?C ! i = replicate (nrows A) 0 ! i"
      using bar_barycentered_nth [OF assms] by simp
  qed
  have "barycentered ?C = mk (nrows ?C) (ncols ?C) (\<lambda>i j. ent ?C i j - bar ?C ! i)"
    by (rule barycentered_eq_mk) (use wfC cC assms in simp_all)
  also have "\<dots> = mk (nrows A) (ncols A) (ent ?C)"
    unfolding nC cC by (rule mk_cong) (simp add: zero)
  also have "\<dots> = ?C"
    using wf_eq_mk [OF wfC] nC cC by simp
  finally show "barycentered ?C = ?C" .
qed

theorem barycentered_centered_idempotent_witness:
  "wf_arr (NDArray 2 3 [[1, 2, 6], [0, 4, 8]]) \<and> 0 < ncols (NDArray 2 3 [[1, 2, 6], [0, 4, 8]])
   \<and> barycentered (NDArray 2 3 [[1, 2, 6], [0, 4, 8]]) = NDArray 2 3 [[-2, -1, 3], [-4, 0, 4]]
   \<and> bar (barycentered (NDArray 2 3 [[1, 2, 6], [0, 4, 8]])) = [0, 0]
   \<and> barycentered (barycentered (NDArray 2 3 [[1, 2, 6], [0, 4, 8]]))
       = barycentered (NDArray 2 3 [[1, 2, 6], [0, 4, 8]])"
proof -
  let ?A = "NDArray 2 3 [[1, 2, 6], [0, 4, 8]]"
  have h1: "wf_arr ?A" by (simp add: wf_arr_def)
  have h2: "0 < ncols ?A" by simp
  have ev: "barycentered ?A = NDArray 2 3 [[-2, -1, 3], [-4, 0, 4]]"
    by (simp add: barycentered_def bar_def mT_def mk_def np_array_def vsub_def ent_def
        upt_conv_Cons)
  have rep: "replicate (nrows ?A) (0::real) = [0, 0]"
    by (simp add: numeral_2_eq_2)
  show ?thesis
    using barycentered_centered_idempotent [OF h1 h2] h1 ev rep by simp
qed

section \<open>Padding\<close>

lemma rows_nth_wf: "wf_arr A \<Longrightarrow> i < nrows A \<Longrightarrow> rows A ! i = map (ent A i) [0..<ncols A]"
  using wf_eq_mk [of A] by (metis rows_mk_nth)

lemma length_rows_wf: "wf_arr A \<Longrightarrow> length (rows A) = nrows A"
  by (simp add: wf_arr_def)

lemma length_row_wf: "wf_arr A \<Longrightarrow> i < nrows A \<Longrightarrow> length (rows A ! i) = ncols A"
  by (simp add: wf_arr_def)

lemma wf_np_block:
  assumes "wf_arr A" "wf_arr B" "wf_arr C" "wf_arr D"
    and "nrows B = nrows A" "nrows D = nrows C" "ncols C = ncols A" "ncols D = ncols B"
  shows "wf_arr (np_block A B C D)"
  using assms by (auto simp: np_block_def wf_arr_def set_zip)

lemma ent_np_block:
  assumes "wf_arr A" "wf_arr B" "wf_arr C" "wf_arr D"
    and "nrows B = nrows A" "nrows D = nrows C" "ncols C = ncols A" "ncols D = ncols B"
    and "i < nrows A + nrows C" "j < ncols A + ncols B"
  shows "ent (np_block A B C D) i j =
     (if i < nrows A then (if j < ncols A then ent A i j else ent B i (j - ncols A))
      else (if j < ncols A then ent C (i - nrows A) j else ent D (i - nrows A) (j - ncols A)))"
  using assms
  by (auto simp: np_block_def ent_def nth_append length_rows_wf length_row_wf)

text \<open>
  C4. With \<open>n \<le> m\<close>, padding an \<open>n \<times> n\<close> array gives the \<open>m \<times> m\<close> array that has the array
  in its top-left block and zeros elsewhere; with \<open>n = m\<close> padding returns the array itself.
\<close>

theorem pad_block:
  assumes "wf_arr Px" "nrows Px = n" "ncols Px = n" "n \<le> m"
  shows "pad n m Px = mk m m (\<lambda>i j. if i < n \<and> j < n then ent Px i j else 0)
       \<and> (n = m \<longrightarrow> pad n m Px = Px)"
proof -
  let ?oo = "np_zeros (m - n) n"
  let ?oz = "np_zeros (m - n) (m - n)"
  let ?P = "np_block Px (mT ?oo) ?oo ?oz"
  have P: "pad n m Px = ?P" by (simp add: pad_def Let_def)
  have wfP: "wf_arr ?P"
    by (rule wf_np_block) (simp_all add: assms np_zeros_def)
  have shape: "nrows ?P = m" "ncols ?P = m"
    using assms by (simp_all add: np_block_def np_zeros_def)
  have entP: "ent ?P i j = (if i < n \<and> j < n then ent Px i j else 0)" if "i < m" "j < m" for i j
  proof -
    have "ent ?P i j =
     (if i < nrows Px then (if j < ncols Px then ent Px i j else ent (mT ?oo) i (j - ncols Px))
      else (if j < ncols Px then ent ?oo (i - nrows Px) j else ent ?oz (i - nrows Px) (j - ncols Px)))"
      by (rule ent_np_block) (use assms that in \<open>simp_all add: np_zeros_def\<close>)
    then show ?thesis using assms that by (auto simp: np_zeros_def)
  qed
  have 1: "?P = mk m m (\<lambda>i j. if i < n \<and> j < n then ent Px i j else 0)"
    by (rule ndarray_eqI) (simp_all add: wfP shape entP)
  have padeq: "pad n m Px = mk m m (\<lambda>i j. if i < n \<and> j < n then ent Px i j else 0)"
    using P 1 by simp
  have 2: "pad n m Px = Px" if "n = m"
  proof -
    have "mk m m (\<lambda>i j. if i < n \<and> j < n then ent Px i j else 0) = mk m m (ent Px)"
      by (rule mk_cong) (simp add: that)
    also have "\<dots> = Px"
      using wf_eq_mk [OF assms(1)] assms(2,3) that by simp
    finally show ?thesis using padeq by simp
  qed
  show ?thesis using padeq 2 by blast
qed

theorem pad_block_witness:
  "wf_arr P2 \<and> nrows P2 = 2 \<and> ncols P2 = 2 \<and> (2::nat) \<le> 3
   \<and> pad 2 3 P2 = NDArray 3 3 [[1, 2, 0], [3, 4, 0], [0, 0, 0]]
   \<and> pad 2 2 P2 = P2"
proof -
  have h: "wf_arr P2" "nrows P2 = 2" "ncols P2 = 2"
    by (simp_all add: P2_def wf_arr_def)
  have "mk 3 3 (\<lambda>i j. if i < 2 \<and> j < 2 then ent P2 i j else 0)
          = NDArray 3 3 [[1, 2, 0], [3, 4, 0], [0, 0, 0]]"
    by (simp add: mk_def P2_def ent_def upt_conv_Cons)
  with pad_block [OF h, of 3]
  have a: "pad 2 3 P2 = NDArray 3 3 [[1, 2, 0], [3, 4, 0], [0, 0, 0]]" by simp
  from pad_block [OF h, of 2] have b: "pad 2 2 P2 = P2" by blast
  show ?thesis using a b h by simp
qed

section \<open>Trial weight\<close>

text \<open>
  C2. A trial returns the weight \<open>exp (- 1000 (t - 3)\<^sup>2)\<close> for the trace
  \<open>t = trace (Px S Py S\<^sup>T)\<close> of its own matrix \<open>S = I[ind]\<close>; the weight is 1 when the trace
  is 3, and at most \<open>exp (- 1000 \<delta>\<^sup>2)\<close> when the trace is off by \<open>\<delta>\<close>.
\<close>

theorem f_opt_weight:
  "(let S = take_rows I (qap i Px Py);
        t = np_trace (matmul (matmul (matmul Px S) Py) (mT S));
        w = fst (f_opt qap Px Py I i)
    in f_opt qap Px Py I i = (exp (- 1000 * (t - 3)\<^sup>2), S, i)
       \<and> (t = 3 \<longrightarrow> w = 1)
       \<and> (\<forall>\<delta>. \<bar>t - 3\<bar> = \<delta> \<longrightarrow> w \<le> exp (- 1000 * \<delta>\<^sup>2)))"
proof -
  define S where "S = take_rows I (qap i Px Py)"
  define t where "t = np_trace (matmul (matmul (matmul Px S) Py) (mT S))"
  have eq: "f_opt qap Px Py I i = (exp (- 1000 * (t - 3)\<^sup>2), S, i)"
    by (simp add: f_opt_def Let_def S_def t_def dim_def)
  have one: "fst (f_opt qap Px Py I i) = 1" if "t = 3"
    using that by (simp add: eq)
  have le: "fst (f_opt qap Px Py I i) \<le> exp (- 1000 * \<delta>\<^sup>2)" if "\<bar>t - 3\<bar> = \<delta>" for \<delta>
  proof -
    have "(t - 3)\<^sup>2 = \<delta>\<^sup>2" using that by (metis power2_abs)
    then show ?thesis by (simp add: eq)
  qed
  show ?thesis
    unfolding Let_def S_def [symmetric] t_def [symmetric] using eq one le by blast
qed

theorem f_opt_weight_witness:
  "np_trace (matmul (matmul (matmul P0 (take_rows I4 (qap0 0 P0 P0))) P0)
       (mT (take_rows I4 (qap0 0 P0 P0)))) = 3
   \<and> f_opt qap0 P0 P0 I4 0 = (1, I4, 0)"
proof -
  have S: "take_rows I4 (qap0 0 P0 P0) = I4"
    by (simp add: take_rows_def qap0_def P0_def I4_def upt_conv_Cons)
  have PP: "matmul P0 P0 = P0"
    by (simp add: matmul_def mk_def ent_def P0_def upt_conv_Cons)
  have TI: "mT I4 = I4"
    by (simp add: mT_def mk_def ent_def I4_def upt_conv_Cons)
  have PI: "matmul P0 I4 = P0"
    by (simp add: matmul_def mk_def ent_def P0_def I4_def upt_conv_Cons)
  have t: "np_trace P0 = 3"
    by (simp add: np_trace_def ent_def P0_def upt_conv_Cons)
  show ?thesis
    using f_opt_weight [of I4 qap0 0 P0 P0] by (simp add: Let_def S PP TI PI t)
qed

section \<open>Assertions\<close>

text \<open>
  C6. When the first sample has more points than the second, the pipeline stops at an
  \<open>assert\<close>, for point clouds (three coordinate rows) at \<open>assert(num_x <= num_y)\<close>: it
  returns that assertion's error, and no step of the computation (centering, projectors,
  trials, assignment, inversion) has run.
\<close>

theorem cardinality_rejected:
  assumes "ncols Y < ncols X"
  shows "\<exists>msg. granni_point_clouds svd qap lsa linv L X Y n_iter = ([], Inl (AssertionError msg))
           \<and> (nrows X = 3 \<and> nrows Y = 3 \<longrightarrow> msg = ''num_x <= num_y'')"
  using assms by (simp add: granni_point_clouds_def dim_def Let_def)

theorem cardinality_rejected_witness:
  "ncols Y1 < ncols X0 \<and> nrows X0 = 3 \<and> nrows Y1 = 3
   \<and> granni_point_clouds svd0 qap0 lsa0 inv0 L2 X0 Y1 1024
       = ([], Inl (AssertionError ''num_x <= num_y''))"
proof -
  have h: "ncols Y1 < ncols X0" and d: "nrows X0 = 3" "nrows Y1 = 3"
    by (simp_all add: X0_def Y1_def)
  from cardinality_rejected [OF h, of svd0 qap0 lsa0 inv0 L2 1024] d
  have "granni_point_clouds svd0 qap0 lsa0 inv0 L2 X0 Y1 1024
       = ([], Inl (AssertionError ''num_x <= num_y''))"
    by auto
  then show ?thesis using h d by simp
qed

section \<open>Matrix algebra\<close>

lemma nrows_matmul [simp]: "nrows (matmul A B) = nrows A"
  by (simp add: matmul_def)

lemma ncols_matmul [simp]: "ncols (matmul A B) = ncols B"
  by (simp add: matmul_def)

lemma wf_matmul [simp]: "wf_arr (matmul A B)"
  by (simp add: matmul_def)

lemma ent_matmul:
  "i < nrows A \<Longrightarrow> j < ncols B \<Longrightarrow> ent (matmul A B) i j = (\<Sum>l<ncols A. ent A i l * ent B l j)"
  by (simp add: matmul_def sum_list_tab)

lemma matmul_assoc:
  assumes "ncols A = nrows B"
  shows "matmul (matmul A B) C = matmul A (matmul B C)"
proof (rule ndarray_eqI)
  fix i j assume ij: "i < nrows (matmul (matmul A B) C)" "j < ncols (matmul (matmul A B) C)"
  then have i: "i < nrows A" and j: "j < ncols C" by simp_all
  have "ent (matmul (matmul A B) C) i j
      = (\<Sum>l<ncols B. (\<Sum>p<ncols A. ent A i p * ent B p l) * ent C l j)"
    using i j by (simp add: ent_matmul)
  also have "\<dots> = (\<Sum>l<ncols B. \<Sum>p<ncols A. ent A i p * (ent B p l * ent C l j))"
    by (simp add: sum_distrib_right mult.assoc)
  also have "\<dots> = (\<Sum>p<ncols A. \<Sum>l<ncols B. ent A i p * (ent B p l * ent C l j))"
    by (rule sum.swap)
  also have "\<dots> = (\<Sum>p<ncols A. ent A i p * ent (matmul B C) p j)"
    using j assms by (simp add: ent_matmul sum_distrib_left)
  also have "\<dots> = ent (matmul A (matmul B C)) i j"
    using i j by (simp add: ent_matmul)
  finally show "ent (matmul (matmul A B) C) i j = ent (matmul A (matmul B C)) i j" .
qed simp_all

lemma mT_matmul:
  assumes "ncols A = nrows B"
  shows "mT (matmul A B) = matmul (mT B) (mT A)"
proof (rule ndarray_eqI)
  fix i j assume "i < nrows (mT (matmul A B))" "j < ncols (mT (matmul A B))"
  then have i: "i < ncols B" and j: "j < nrows A" by simp_all
  show "ent (mT (matmul A B)) i j = ent (matmul (mT B) (mT A)) i j"
    using i j assms by (simp add: ent_matmul mult.commute)
qed simp_all

lemma nrows_identity [simp]: "nrows (np_identity n) = n"
  by (simp add: np_identity_def)

lemma ncols_identity [simp]: "ncols (np_identity n) = n"
  by (simp add: np_identity_def)

lemma wf_identity [simp]: "wf_arr (np_identity n)"
  by (simp add: np_identity_def)

lemma ent_identity [simp]:
  "i < n \<Longrightarrow> j < n \<Longrightarrow> ent (np_identity n) i j = (if i = j then 1 else 0)"
  by (simp add: np_identity_def)

lemma matmul_identity_right:
  assumes "wf_arr A" "ncols A = n"
  shows "matmul A (np_identity n) = A"
proof (rule ndarray_eqI)
  fix i j assume "i < nrows (matmul A (np_identity n))" "j < ncols (matmul A (np_identity n))"
  then have i: "i < nrows A" and j: "j < n" by simp_all
  have "ent (matmul A (np_identity n)) i j = (\<Sum>l<n. ent A i l * (if l = j then 1 else 0))"
    using i j assms by (simp add: ent_matmul)
  also have "\<dots> = (\<Sum>l<n. if l = j then ent A i l else 0)"
    by (intro sum.cong) simp_all
  also have "\<dots> = ent A i j" using j by simp
  finally show "ent (matmul A (np_identity n)) i j = ent A i j" .
qed (use assms in simp_all)

lemma matmul_identity_left:
  assumes "wf_arr A" "nrows A = n"
  shows "matmul (np_identity n) A = A"
proof (rule ndarray_eqI)
  fix i j assume "i < nrows (matmul (np_identity n) A)" "j < ncols (matmul (np_identity n) A)"
  then have i: "i < n" and j: "j < ncols A" by simp_all
  have "ent (matmul (np_identity n) A) i j = (\<Sum>l<n. (if i = l then 1 else 0) * ent A l j)"
    using i j assms by (simp add: ent_matmul)
  also have "\<dots> = (\<Sum>l<n. if l = i then ent A l j else 0)"
    by (intro sum.cong) simp_all
  also have "\<dots> = ent A i j" using i by simp
  finally show "ent (matmul (np_identity n) A) i j = ent A i j" .
qed (use assms in simp_all)

lemma mT_identity [simp]: "mT (np_identity n) = np_identity n"
  by (rule ndarray_eqI) auto

lemma first_rows_eq_mk:
  assumes "wf_arr A"
  shows "first_rows r A = mk (min r (nrows A)) (ncols A) (ent A)"
proof -
  have "take r (rows A) = map (\<lambda>i. map (ent A i) [0..<ncols A]) [0..<min r (nrows A)]"
  proof (rule nth_equalityI)
    show "length (take r (rows A)) = length (map (\<lambda>i. map (ent A i) [0..<ncols A]) [0..<min r (nrows A)])"
      using assms by (simp add: wf_arr_def min.commute)
  next
    fix i assume "i < length (take r (rows A))"
    then have "i < r" "i < nrows A" using assms by (simp_all add: wf_arr_def)
    then show "take r (rows A) ! i = map (\<lambda>i. map (ent A i) [0..<ncols A]) [0..<min r (nrows A)] ! i"
      using rows_nth_wf [OF assms] by simp
  qed
  then show ?thesis by (simp add: first_rows_def mk_def)
qed

section \<open>Kernel projection\<close>

lemma length_matvec [simp]: "length (matvec A v) = nrows A"
  by (simp add: matvec_def)

lemma matvec_nth:
  "i < nrows A \<Longrightarrow> matvec A v ! i = (\<Sum>j<ncols A. ent A i j * v ! j)"
  by (simp add: matvec_def sum_list_tab)

lemma matvec_matmul:
  assumes "ncols A = nrows B"
  shows "matvec (matmul A B) v = matvec A (matvec B v)"
proof (rule nth_equalityI)
  fix i assume "i < length (matvec (matmul A B) v)"
  then have i: "i < nrows A" by simp
  have "matvec (matmul A B) v ! i = (\<Sum>j<ncols B. (\<Sum>l<ncols A. ent A i l * ent B l j) * v ! j)"
    using i by (simp add: matvec_nth ent_matmul)
  also have "\<dots> = (\<Sum>j<ncols B. \<Sum>l<ncols A. ent A i l * (ent B l j * v ! j))"
    by (simp add: sum_distrib_right mult.assoc)
  also have "\<dots> = (\<Sum>l<ncols A. \<Sum>j<ncols B. ent A i l * (ent B l j * v ! j))"
    by (rule sum.swap)
  also have "\<dots> = (\<Sum>l<ncols A. ent A i l * matvec B v ! l)"
    using assms by (simp add: matvec_nth sum_distrib_left)
  also have "\<dots> = matvec A (matvec B v) ! i"
    using i by (simp add: matvec_nth)
  finally show "matvec (matmul A B) v ! i = matvec A (matvec B v) ! i" .
qed simp

lemma matvec_identity:
  assumes "length v = n"
  shows "matvec (np_identity n) v = v"
proof (rule nth_equalityI)
  fix i assume "i < length (matvec (np_identity n) v)"
  then have i: "i < n" by simp
  have "matvec (np_identity n) v ! i = (\<Sum>j<n. (if i = j then 1 else 0) * v ! j)"
    using i by (simp add: matvec_nth)
  also have "\<dots> = (\<Sum>j<n. if j = i then v ! j else 0)"
    by (intro sum.cong) simp_all
  also have "\<dots> = v ! i" using i by simp
  finally show "matvec (np_identity n) v ! i = v ! i" .
qed (use assms in simp)

lemma matvec_zero: "matvec A (zero_vec n) = zero_vec (nrows A)" if "ncols A \<le> n"
proof (rule nth_equalityI)
  fix i assume "i < length (matvec A (zero_vec n))"
  then have i: "i < nrows A" by simp
  have "matvec A (zero_vec n) ! i = (\<Sum>j<ncols A. ent A i j * zero_vec n ! j)"
    using i by (simp add: matvec_nth)
  also have "\<dots> = 0"
    using that by (intro sum.neutral) (simp add: zero_vec_def)
  finally show "matvec A (zero_vec n) ! i = zero_vec (nrows A) ! i"
    using i by (simp add: zero_vec_def)
qed (simp add: zero_vec_def)

lemma matvec_mT_lincomb:
  assumes "wf_arr K"
  shows "matvec (mT K) c = lincomb (ncols K) c (rows K)"
proof (rule nth_equalityI)
  fix j assume "j < length (matvec (mT K) c)"
  then have j: "j < ncols K" by simp
  have "matvec (mT K) c ! j = (\<Sum>i<nrows K. ent K i j * c ! i)"
    using j by (simp add: matvec_nth)
  also have "\<dots> = (\<Sum>i<nrows K. c ! i * rows K ! i ! j)"
    by (simp add: ent_def mult.commute)
  also have "\<dots> = lincomb (ncols K) c (rows K) ! j"
    using j assms by (simp add: lincomb_def sum_list_tab length_rows_wf)
  finally show "matvec (mT K) c ! j = lincomb (ncols K) c (rows K) ! j" .
qed (simp add: lincomb_def)

text \<open>The projector built from an array with orthonormal rows.\<close>

lemma gram_symmetric:
  assumes "wf_arr K"
  shows "symmetric (matmul (mT K) K)"
  unfolding symmetric_def using assms by (simp add: mT_matmul T_T)

lemma gram_idempotent:
  assumes "wf_arr K" "matmul K (mT K) = np_identity (nrows K)"
  shows "idempotent (matmul (mT K) K)"
proof -
  have "matmul (matmul (mT K) K) (matmul (mT K) K) = matmul (mT K) (matmul K (matmul (mT K) K))"
    by (simp add: matmul_assoc)
  also have "matmul K (matmul (mT K) K) = matmul (matmul K (mT K)) K"
    by (simp add: matmul_assoc)
  also have "\<dots> = K"
    using assms by (simp add: matmul_identity_left)
  finally show ?thesis by (simp add: idempotent_def)
qed

lemma gram_has_rank:
  assumes "wf_arr K" "matmul K (mT K) = np_identity (nrows K)"
  shows "has_rank (matmul (mT K) K) (nrows K)"
proof -
  let ?P = "matmul (mT K) K"
  let ?r = "nrows K" and ?k = "ncols K"
  have Pv: "matvec ?P v = lincomb ?k (matvec K v) (rows K)" for v
    using assms(1) by (simp add: matvec_matmul matvec_mT_lincomb)
  have KKT: "matvec K (matvec (mT K) c) = c" if "length c = ?r" for c
  proof -
    have "matvec K (matvec (mT K) c) = matvec (matmul K (mT K)) c"
      by (simp add: matvec_matmul)
    then show ?thesis using assms(2) that by (simp add: matvec_identity)
  qed
  have indep: "lin_indep ?k (rows K)"
    unfolding lin_indep_def
  proof (intro allI impI, elim conjE)
    fix cs assume len: "length cs = length (rows K)" and z: "lincomb ?k cs (rows K) = zero_vec ?k"
    have lr: "length cs = ?r" using len assms(1) by (simp add: length_rows_wf)
    have "cs = matvec K (matvec (mT K) cs)" using KKT [OF lr] by simp
    also have "\<dots> = matvec K (zero_vec ?k)"
      using z assms(1) by (simp add: matvec_mT_lincomb)
    also have "\<dots> = zero_vec ?r" by (simp add: matvec_zero)
    finally show "\<forall>c\<in>set cs. c = 0" by (simp add: zero_vec_def)
  qed
  have img: "\<exists>v. length v = ?k \<and> matvec ?P v = b" if "b \<in> set (rows K)" for b
  proof -
    from that obtain q where q: "q < ?r" and b: "b = rows K ! q"
      using assms(1) by (auto simp: in_set_conv_nth length_rows_wf)
    have lu: "length (unit_vec ?r q) = ?r" by (simp add: unit_vec_def)
    have bq: "b = matvec (mT K) (unit_vec ?r q)"
    proof (rule nth_equalityI)
      show "length b = length (matvec (mT K) (unit_vec ?r q))"
        using b q assms(1) by (simp add: length_row_wf)
    next
      fix j assume "j < length b"
      then have j: "j < ?k" using b q assms(1) by (simp add: length_row_wf)
      have "matvec (mT K) (unit_vec ?r q) ! j = (\<Sum>i<?r. ent K i j * (if i = q then 1 else 0))"
        using j by (simp add: matvec_nth unit_vec_def)
      also have "\<dots> = (\<Sum>i<?r. if i = q then ent K i j else 0)"
        by (intro sum.cong) simp_all
      also have "\<dots> = ent K q j" using q by simp
      finally show "b ! j = matvec (mT K) (unit_vec ?r q) ! j"
        by (simp add: b ent_def)
    qed
    have "matvec ?P b = matvec (mT K) (matvec K b)"
      by (simp add: matvec_matmul)
    also have "\<dots> = b" using KKT [OF lu] bq by simp
    finally have "matvec ?P b = b" .
    moreover have "length b = ?k" using b q assms(1) by (simp add: length_row_wf)
    ultimately show ?thesis by blast
  qed
  show ?thesis
    unfolding has_rank_def
  proof (intro exI [of _ "rows K"] conjI ballI allI impI)
    show "length (rows K) = ?r" using assms(1) by (simp add: length_rows_wf)
  next
    fix b assume "b \<in> set (rows K)"
    then show "length b = nrows ?P" using assms(1) by (auto simp: wf_arr_def)
  next
    show "lin_indep (nrows ?P) (rows K)" using indep by simp
  next
    fix b assume "b \<in> set (rows K)"
    then show "\<exists>v. length v = ncols ?P \<and> matvec ?P v = b" using img by simp
  next
    fix v :: vec assume "length v = ncols ?P"
    show "\<exists>cs. length cs = ?r \<and> matvec ?P v = lincomb (nrows ?P) cs (rows K)"
      using Pv [of v] by (intro exI [of _ "matvec K v"]) simp
  qed
qed

lemma first_rows_orthonormal:
  assumes "orthogonal V" "r \<le> nrows V"
  shows "wf_arr (first_rows r V)" "nrows (first_rows r V) = r" "ncols (first_rows r V) = ncols V"
    "matmul (first_rows r V) (mT (first_rows r V)) = np_identity r"
proof -
  let ?K = "first_rows r V"
  have wfV: "wf_arr V" and sq: "nrows V = ncols V"
    and VVT: "matmul V (mT V) = np_identity (nrows V)"
    using assms(1) by (simp_all add: orthogonal_def)
  have K: "?K = mk r (ncols V) (ent V)"
    using first_rows_eq_mk [OF wfV, of r] assms(2) by (simp add: min_def)
  show "wf_arr ?K" "nrows ?K = r" "ncols ?K = ncols V" by (simp_all add: K)
  show "matmul ?K (mT ?K) = np_identity r"
  proof (rule ndarray_eqI)
    fix a b assume "a < nrows (matmul ?K (mT ?K))" "b < ncols (matmul ?K (mT ?K))"
    then have a: "a < r" and b: "b < r" by (simp_all add: K)
    have "ent (matmul ?K (mT ?K)) a b = (\<Sum>j<ncols V. ent V a j * ent V b j)"
      using a b by (simp add: K ent_matmul)
    also have "\<dots> = ent (matmul V (mT V)) a b"
      using a b assms(2) by (simp add: ent_matmul)
    also have "\<dots> = ent (np_identity r) a b"
      using a b assms(2) by (simp add: VVT)
    finally show "ent (matmul ?K (mT ?K)) a b = ent (np_identity r) a b" .
  qed (simp_all add: K)
qed

text \<open>
  C8. With a singular value decomposition as \<open>np.linalg.svd\<close> returns it and at least as
  many columns as rows, \<open>ortho_proj_ker X\<close> is symmetric, idempotent and of rank \<open>d\<close>, the
  number of rows of \<open>X\<close>. (This needs neither that \<open>X\<close> is centered nor that it has full
  rank.)
\<close>

theorem ortho_proj_ker_projector:
  assumes "is_svd X (svd X)" "nrows X \<le> ncols X"
  shows "symmetric (ortho_proj_ker svd X) \<and> idempotent (ortho_proj_ker svd X)
       \<and> has_rank (ortho_proj_ker svd X) (nrows X)"
proof -
  obtain U S V where usv: "svd X = (U, S, V)" by (cases "svd X") auto
  have V: "orthogonal V" and nV: "nrows V = ncols X" and lS: "length S = nrows X"
    using assms by (simp_all add: is_svd_def usv min_def)
  let ?K = "first_rows (nrows X) V"
  have P: "ortho_proj_ker svd X = matmul (mT ?K) ?K"
    by (simp add: ortho_proj_ker_def usv lS Let_def)
  have le: "nrows X \<le> nrows V" using assms(2) nV by simp
  note K = first_rows_orthonormal [OF V le]
  have KKT: "matmul ?K (mT ?K) = np_identity (nrows ?K)" using K(2,4) by simp
  have "has_rank (matmul (mT ?K) ?K) (nrows ?K)" by (rule gram_has_rank [OF K(1) KKT])
  then have "has_rank (matmul (mT ?K) ?K) (nrows X)" using K(2) by simp
  then show ?thesis
    unfolding P using gram_symmetric [OF K(1)] gram_idempotent [OF K(1) KKT] by blast
qed

lemma X0_neq_Xd: "X0 \<noteq> Xd"
  by (simp add: X0_def Xd_def)

lemma is_svd_X0: "is_svd X0 (svd0 X0)"
  apply (simp add: is_svd_def svd0_def orthogonal_def X0_neq_Xd)
  apply (intro conjI)
            apply (simp_all add: U0_def V0_def S0_def X0_def wf_arr_def)
      apply (simp_all add: matmul_def mT_def np_identity_def diag_rect_def mk_def ent_def upt_conv_Cons)
  done

lemma ortho_proj_ker_X0: "ortho_proj_ker svd0 X0 = P0"
  by (simp add: ortho_proj_ker_def svd0_def X0_neq_Xd S0_def V0_def P0_def first_rows_def Let_def
      matmul_def mT_def mk_def ent_def upt_conv_Cons)

theorem ortho_proj_ker_projector_witness:
  "is_svd X0 (svd0 X0) \<and> nrows X0 \<le> ncols X0
   \<and> ortho_proj_ker svd0 X0 = P0 \<and> symmetric P0 \<and> idempotent P0 \<and> has_rank P0 3"
proof -
  have h: "nrows X0 \<le> ncols X0" and d: "nrows X0 = 3" by (simp_all add: X0_def)
  show ?thesis
    using ortho_proj_ker_projector [of X0 svd0, OF is_svd_X0 h] is_svd_X0 h
    by (simp add: ortho_proj_ker_X0 d)
qed

section \<open>Row space\<close>

lemma nrows_np_diag [simp]: "nrows (np_diag s) = length s"
  by (simp add: np_diag_def)

lemma ncols_np_diag [simp]: "ncols (np_diag s) = length s"
  by (simp add: np_diag_def)

lemma wf_np_diag [simp]: "wf_arr (np_diag s)"
  by (simp add: np_diag_def)

lemma ent_np_diag [simp]:
  "i < length s \<Longrightarrow> j < length s \<Longrightarrow> ent (np_diag s) i j = (if i = j then s ! i else 0)"
  by (simp add: np_diag_def)

lemma mT_np_diag [simp]: "mT (np_diag s) = np_diag s"
  by (rule ndarray_eqI) auto

lemma ent_diag_matmul:
  assumes "i < length s" "j < ncols A" "nrows A = length s"
  shows "ent (matmul (np_diag s) A) i j = s ! i * ent A i j"
proof -
  have "ent (matmul (np_diag s) A) i j = (\<Sum>l<length s. (if i = l then s ! i else 0) * ent A l j)"
    using assms by (simp add: ent_matmul)
  also have "\<dots> = (\<Sum>l<length s. if l = i then s ! i * ent A l j else 0)"
    by (intro sum.cong) simp_all
  also have "\<dots> = s ! i * ent A i j" using assms(1) by simp
  finally show ?thesis .
qed

lemma ent_matmul_diag:
  assumes "i < nrows A" "j < length s" "ncols A = length s"
  shows "ent (matmul A (np_diag s)) i j = ent A i j * s ! j"
proof -
  have "ent (matmul A (np_diag s)) i j = (\<Sum>l<length s. ent A i l * (if l = j then s ! l else 0))"
    using assms by (simp add: ent_matmul)
  also have "\<dots> = (\<Sum>l<length s. if l = j then ent A i l * s ! l else 0)"
    by (intro sum.cong) simp_all
  also have "\<dots> = ent A i j * s ! j" using assms(2) by simp
  finally show ?thesis .
qed

lemma diag_rect_matmul:
  assumes "wf_arr V" "nrows V = k" "length s = d" "d \<le> k"
  shows "matmul (diag_rect d k s) V = matmul (np_diag s) (first_rows d V)"
proof -
  have K: "first_rows d V = mk d (ncols V) (ent V)"
    using first_rows_eq_mk [OF assms(1), of d] assms(2,4) by (simp add: min_def)
  show ?thesis
  proof (rule ndarray_eqI)
    fix i j
    assume "i < nrows (matmul (diag_rect d k s) V)" "j < ncols (matmul (diag_rect d k s) V)"
    then have i: "i < d" and j: "j < ncols V" by (simp_all add: diag_rect_def)
    have "ent (matmul (diag_rect d k s) V) i j
        = (\<Sum>l<k. (if i = l then s ! i else 0) * ent V l j)"
      using i j by (simp add: ent_matmul diag_rect_def)
    also have "\<dots> = (\<Sum>l<k. if l = i then s ! i * ent V l j else 0)"
      by (intro sum.cong) simp_all
    also have "\<dots> = s ! i * ent V i j" using i assms(4) by simp
    also have "\<dots> = ent (matmul (np_diag s) (first_rows d V)) i j"
      using i j assms(3) by (simp add: ent_diag_matmul K)
    finally show "ent (matmul (diag_rect d k s) V) i j
        = ent (matmul (np_diag s) (first_rows d V)) i j" .
  qed (simp_all add: diag_rect_def assms K)
qed

text \<open>The thin form of the decomposition: \<open>X = (U diag(S)) Vh[:d]\<close>.\<close>

lemma thin_svd:
  assumes "is_svd X (U, S, V)" "nrows X \<le> ncols X"
  shows "X = matmul (matmul U (np_diag S)) (first_rows (nrows X) V)"
proof -
  have U: "orthogonal U" and nU: "nrows U = nrows X" and V: "orthogonal V"
    and nV: "nrows V = ncols X" and lS: "length S = nrows X"
    and X: "X = matmul (matmul U (diag_rect (nrows X) (ncols X) S)) V"
    using assms by (simp_all add: is_svd_def min_def)
  have wfV: "wf_arr V" using V by (simp add: orthogonal_def)
  have cU: "ncols U = nrows X" using U nU by (simp add: orthogonal_def)
  have "matmul (matmul U (diag_rect (nrows X) (ncols X) S)) V
      = matmul U (matmul (diag_rect (nrows X) (ncols X) S) V)"
    by (rule matmul_assoc) (simp add: cU diag_rect_def)
  also have "\<dots> = matmul U (matmul (np_diag S) (first_rows (nrows X) V))"
    using diag_rect_matmul [OF wfV nV lS assms(2)] by simp
  also have "\<dots> = matmul (matmul U (np_diag S)) (first_rows (nrows X) V)"
    by (rule matmul_assoc [symmetric]) (simp add: cU lS)
  finally show ?thesis using X by simp
qed

lemma diag_inverse:
  assumes "\<forall>x \<in> set s. x \<noteq> 0"
  shows "matmul (np_diag s) (np_diag (map inverse s)) = np_identity (length s)"
    "matmul (np_diag (map inverse s)) (np_diag s) = np_identity (length s)"
proof -
  have nz: "s ! i \<noteq> 0" if "i < length s" for i using assms that by simp
  show "matmul (np_diag s) (np_diag (map inverse s)) = np_identity (length s)"
    by (rule ndarray_eqI) (auto simp: ent_diag_matmul nz)
  show "matmul (np_diag (map inverse s)) (np_diag s) = np_identity (length s)"
    by (rule ndarray_eqI) (auto simp: ent_matmul_diag nz)
qed

lemma scaled_orthogonal_inverse:
  assumes "orthogonal U" "length s = nrows U" "\<forall>x \<in> set s. x \<noteq> 0"
  shows "is_inverse (matmul U (np_diag s)) (matmul (np_diag (map inverse s)) (mT U))"
proof -
  let ?D = "np_diag s" and ?E = "np_diag (map inverse s)"
  let ?d = "nrows U"
  have wfU: "wf_arr U" and cU: "ncols U = ?d"
    and UUT: "matmul U (mT U) = np_identity ?d" and UTU: "matmul (mT U) U = np_identity ?d"
    using assms(1) by (simp_all add: orthogonal_def)
  have "matmul (matmul U ?D) (matmul ?E (mT U)) = matmul U (matmul ?D (matmul ?E (mT U)))"
    by (rule matmul_assoc) (simp add: cU assms(2))
  also have "matmul ?D (matmul ?E (mT U)) = matmul (matmul ?D ?E) (mT U)"
    by (rule matmul_assoc [symmetric]) simp
  also have "\<dots> = mT U"
    using diag_inverse(1) [OF assms(3)] assms(2) cU by (simp add: matmul_identity_left)
  finally have 1: "matmul (matmul U ?D) (matmul ?E (mT U)) = np_identity ?d"
    using UUT by simp
  have "matmul (matmul ?E (mT U)) (matmul U ?D) = matmul ?E (matmul (mT U) (matmul U ?D))"
    by (rule matmul_assoc) (simp add: cU assms(2))
  also have "matmul (mT U) (matmul U ?D) = matmul (matmul (mT U) U) ?D"
    by (rule matmul_assoc [symmetric]) simp
  also have "\<dots> = ?D"
    using UTU assms(2) by (simp add: matmul_identity_left)
  finally have 2: "matmul (matmul ?E (mT U)) (matmul U ?D) = np_identity ?d"
    using diag_inverse(2) [OF assms(3)] assms(2) by simp
  show ?thesis
    unfolding is_inverse_def using 1 2 assms(2) by simp
qed

lemma row_as_matvec:
  assumes "wf_arr A" "a < nrows A"
  shows "rows A ! a = matvec (mT A) (unit_vec (nrows A) a)"
proof (rule nth_equalityI)
  show "length (rows A ! a) = length (matvec (mT A) (unit_vec (nrows A) a))"
    using assms by (simp add: length_row_wf)
next
  fix j assume "j < length (rows A ! a)"
  then have j: "j < ncols A" using assms by (simp add: length_row_wf)
  have "matvec (mT A) (unit_vec (nrows A) a) ! j
      = (\<Sum>i<nrows A. ent A i j * (if i = a then 1 else 0))"
    using j by (simp add: matvec_nth unit_vec_def)
  also have "\<dots> = (\<Sum>i<nrows A. if i = a then ent A i j else 0)"
    by (intro sum.cong) simp_all
  also have "\<dots> = ent A a j" using assms(2) by simp
  finally show "rows A ! a ! j = matvec (mT A) (unit_vec (nrows A) a) ! j"
    by (simp add: ent_def)
qed

text \<open>
  What \<open>ortho_proj_ker\<close> computes. For \<open>X\<close> of full rank (all singular values positive)
  with at least as many columns as rows, the result projects onto the row space of \<open>X\<close>:
  it sends every \<open>v\<close> with \<open>X v = 0\<close> to zero and fixes every row of \<open>X\<close>.
\<close>

theorem ortho_proj_ker_row_space:
  assumes "is_svd X (svd X)" "nrows X \<le> ncols X" "\<forall>x \<in> set (fst (snd (svd X))). 0 < x"
  shows "(\<forall>v. length v = ncols X \<and> matvec X v = zero_vec (nrows X)
             \<longrightarrow> matvec (ortho_proj_ker svd X) v = zero_vec (ncols X))
       \<and> (\<forall>u \<in> set (rows X). matvec (ortho_proj_ker svd X) u = u)"
proof -
  obtain U S V where usv: "svd X = (U, S, V)" by (cases "svd X") auto
  let ?d = "nrows X" and ?k = "ncols X"
  have svd: "is_svd X (U, S, V)" using assms(1) usv by simp
  have U: "orthogonal U" and nU: "nrows U = ?d" and V: "orthogonal V"
    and nV: "nrows V = ?k" and lS: "length S = ?d"
    using svd assms(2) by (simp_all add: is_svd_def min_def)
  have pos: "\<forall>x \<in> set S. x \<noteq> 0" using assms(3) usv by auto
  let ?K = "first_rows ?d V"
  let ?L = "matmul U (np_diag S)"
  have P: "ortho_proj_ker svd X = matmul (mT ?K) ?K"
    by (simp add: ortho_proj_ker_def usv lS Let_def)
  have le: "?d \<le> nrows V" using assms(2) nV by simp
  note K = first_rows_orthonormal [OF V le]
  have cK: "ncols ?K = ?k" using K(3) V nV by (simp add: orthogonal_def)
  have X: "X = matmul ?L ?K" by (rule thin_svd [OF svd assms(2)])
  have wfX: "wf_arr X" by (subst X) simp
  have KKT: "matvec ?K (matvec (mT ?K) c) = c" if "length c = ?d" for c
  proof -
    have "matvec ?K (matvec (mT ?K) c) = matvec (matmul ?K (mT ?K)) c"
      by (simp add: matvec_matmul)
    then show ?thesis using K(4) that by (simp add: matvec_identity)
  qed
  define Li where "Li = matmul (np_diag (map inverse S)) (mT U)"
  have "is_inverse ?L Li"
    unfolding Li_def by (rule scaled_orthogonal_inverse [OF U]) (simp_all add: lS nU pos)
  then have LiL: "matmul Li ?L = np_identity ?d" and cLi: "ncols Li = ?d"
    by (simp_all add: is_inverse_def nU)
  have ker: "matvec (ortho_proj_ker svd X) v = zero_vec ?k"
    if v: "length v = ?k" "matvec X v = zero_vec ?d" for v
  proof -
    have "matvec ?L (matvec ?K v) = zero_vec ?d"
      using v(2) by (subst (asm) X) (simp add: matvec_matmul lS K(2))
    then have "matvec Li (matvec ?L (matvec ?K v)) = zero_vec (nrows Li)"
      by (simp add: matvec_zero cLi)
    moreover have "matvec Li (matvec ?L (matvec ?K v)) = matvec (matmul Li ?L) (matvec ?K v)"
      by (simp add: matvec_matmul cLi nU)
    ultimately have "matvec ?K v = zero_vec (nrows Li)"
      by (simp add: LiL matvec_identity K(2))
    moreover have "nrows Li = ?d" by (simp add: Li_def lS)
    ultimately have "matvec ?K v = zero_vec ?d" by simp
    then have "matvec (matmul (mT ?K) ?K) v = matvec (mT ?K) (zero_vec ?d)"
      by (simp add: matvec_matmul)
    also have "\<dots> = zero_vec ?k"
      by (simp add: matvec_zero K(2) cK)
    finally show ?thesis by (simp add: P)
  qed
  have row: "matvec (ortho_proj_ker svd X) u = u" if "u \<in> set (rows X)" for u
  proof -
    from that obtain a where a: "a < ?d" and u: "u = rows X ! a"
      using wfX by (auto simp: in_set_conv_nth length_rows_wf)
    have "mT X = matmul (mT ?K) (mT ?L)"
      by (subst X) (simp add: mT_matmul lS K(2))
    then have "u = matvec (matmul (mT ?K) (mT ?L)) (unit_vec ?d a)"
      using row_as_matvec [OF wfX a] u by simp
    then have uw: "u = matvec (mT ?K) (matvec (mT ?L) (unit_vec ?d a))"
      by (simp add: matvec_matmul K(2) lS)
    have "matvec (matmul (mT ?K) ?K) u = matvec (mT ?K) (matvec ?K u)"
      by (simp add: matvec_matmul)
    also have "matvec ?K u = matvec (mT ?L) (unit_vec ?d a)"
      by (subst uw) (simp add: KKT lS)
    finally show ?thesis using uw by (simp add: P)
  qed
  show ?thesis using ker row by blast
qed

lemma zero_vec_3: "zero_vec 3 = [0, 0, 0]"
  by (simp add: zero_vec_def eval_nat_numeral)

lemma zero_vec_4: "zero_vec 4 = [0, 0, 0, 0]"
  by (simp add: zero_vec_def eval_nat_numeral)

theorem ortho_proj_ker_row_space_witness:
  "is_svd X0 (svd0 X0) \<and> nrows X0 \<le> ncols X0 \<and> fst (snd (svd0 X0)) = [2, 2, 2]
   \<and> matvec X0 [1, 1, 1, 1] = zero_vec 3 \<and> matvec (ortho_proj_ker svd0 X0) [1, 1, 1, 1] = zero_vec 4
   \<and> [1, 1, -1, -1] \<in> set (rows X0)
   \<and> matvec (ortho_proj_ker svd0 X0) [1, 1, -1, -1] = [1, 1, -1, -1]"
proof -
  have h: "nrows X0 \<le> ncols X0" "\<forall>x \<in> set (fst (snd (svd0 X0))). 0 < x"
    by (simp_all add: X0_def svd0_def Xd_def S0_def)
  have v: "length [1, 1, 1, 1 :: real] = ncols X0" "matvec X0 [1, 1, 1, 1] = zero_vec (nrows X0)"
    by (simp_all add: X0_def matvec_def ent_def zero_vec_3 upt_conv_Cons)
  have u: "[1, 1, -1, -1] \<in> set (rows X0)" by (simp add: X0_def)
  have d: "nrows X0 = 3" "ncols X0 = 4" by (simp_all add: X0_def)
  have sv: "fst (snd (svd0 X0)) = [2, 2, 2]"
    by (simp add: svd0_def X0_neq_Xd S0_def)
  show ?thesis
    using ortho_proj_ker_row_space [of X0 svd0, OF is_svd_X0 h] is_svd_X0 h(1) v u sv
    by (simp add: d)
qed

text \<open>
  C1. The function's header comment promises the projection onto \<open>ker X\<close>, of dimension
  \<open>n - d\<close>; \<open>ker = Vx[:rank]\<close> takes the rows of \<open>Vx\<close> that span the row space instead (the
  kernel rows are \<open>Vx[rank:]\<close>). On \<open>X0\<close>, with the decomposition \<open>svd0 X0\<close> (a singular value
  decomposition of \<open>X0\<close> by \<open>is_svd_X0\<close>), the function returns \<open>P0\<close>: the vector
  \<open>(1, 1, 1, 1)\<close> of the kernel of \<open>X0\<close> is sent to zero, not to itself, and the first row
  of \<open>X0\<close> is kept, not sent to zero.
\<close>

theorem ortho_proj_ker_kernel_failing_input:
  "ortho_proj_ker svd0 X0 = P0
   \<and> matvec X0 [1, 1, 1, 1] = zero_vec 3
   \<and> matvec (ortho_proj_ker svd0 X0) [1, 1, 1, 1] = zero_vec 4
   \<and> matvec (ortho_proj_ker svd0 X0) [1, 1, 1, 1] \<noteq> [1, 1, 1, 1]
   \<and> rows X0 ! 0 = [1, 1, -1, -1]
   \<and> matvec (ortho_proj_ker svd0 X0) [1, 1, -1, -1] = [1, 1, -1, -1]
   \<and> matvec (ortho_proj_ker svd0 X0) [1, 1, -1, -1] \<noteq> zero_vec 4"
proof -
  have "matvec X0 [1, 1, 1, 1] = zero_vec 3"
    by (simp add: X0_def matvec_def ent_def zero_vec_3 upt_conv_Cons)
  moreover have "matvec P0 [1, 1, 1, 1] = [0, 0, 0, 0]"
    by (simp add: P0_def matvec_def ent_def upt_conv_Cons)
  moreover have "matvec P0 [1, 1, -1, -1] = [1, 1, -1, -1]"
    by (simp add: P0_def matvec_def ent_def upt_conv_Cons)
  moreover have "rows X0 ! 0 = [1, 1, -1, -1]" by (simp add: X0_def)
  ultimately show ?thesis
    by (simp add: ortho_proj_ker_X0 zero_vec_4)
qed

section \<open>The pipeline\<close>

lemma shape_smul [simp]: "nrows (smul w A) = nrows A" "ncols (smul w A) = ncols A"
  by (simp_all add: smul_def)

lemma shape_sadd [simp]: "nrows (sadd w A) = nrows A" "ncols (sadd w A) = ncols A"
  by (simp_all add: sadd_def)

lemma shape_madd [simp]: "nrows (madd A B) = nrows A" "ncols (madd A B) = ncols A"
  by (simp_all add: madd_def)

lemma shape_foldl_madd [simp]:
  "nrows (foldl madd A ms) = nrows A" "ncols (foldl madd A ms) = ncols A"
  by (induction ms arbitrary: A) simp_all

lemma shape_take_rows [simp]:
  "nrows (take_rows A ind) = length ind" "ncols (take_rows A ind) = ncols A"
  by (simp_all add: take_rows_def)

lemma shape_pad [simp]:
  "nrows (pad n m P) = nrows P + (m - n)" "ncols (pad n m P) = ncols P + (m - n)"
  by (simp_all add: pad_def Let_def np_block_def np_zeros_def)

lemma snd_f_opt [simp]: "fst (snd (f_opt qap Px Py I i)) = take_rows I (qap i Px Py)"
  by (simp add: f_opt_def Let_def)

lemma py_sum_None: "py_sum ms = None \<longleftrightarrow> ms = []"
  by (cases ms) (simp_all add: py_sum_def)

lemma py_sum_shape:
  "py_sum (m # ms) = Some M \<Longrightarrow> nrows M = nrows m \<and> ncols M = ncols m"
  by (auto simp: py_sum_def)

lemma aggregated_matrix_None:
  "aggregated_matrix svd qap X Y n_iter = None \<longleftrightarrow> n_iter = 0"
  by (simp add: aggregated_matrix_def Let_def py_sum_None)

lemma shape_ortho_proj_ker:
  assumes "is_svd X (svd X)"
  shows "nrows (ortho_proj_ker svd X) = ncols X"
proof -
  obtain U S V where usv: "svd X = (U, S, V)" by (cases "svd X") auto
  have "orthogonal V" "nrows V = ncols X" using assms by (simp_all add: is_svd_def usv)
  then have "ncols V = ncols X" by (simp add: orthogonal_def)
  then show ?thesis
    by (simp add: ortho_proj_ker_def usv Let_def first_rows_def)
qed

lemma aggregated_matrix_rows:
  assumes "aggregated_matrix svd qap X Y n_iter = Some mat" "qap_spec qap"
    "is_svd X (svd X)" "ncols X \<le> ncols Y"
  shows "nrows mat = ncols Y"
proof -
  have pos: "0 < n_iter"
    using assms(1) aggregated_matrix_None [of svd qap X Y n_iter] by (cases n_iter) auto
  let ?Px = "pad (ncols X) (ncols Y) (ortho_proj_ker svd X)"
  let ?Py = "ortho_proj_ker svd Y"
  let ?I = "np_identity (ncols Y)"
  let ?f = "\<lambda>i. smul (fst (f_opt qap ?Px ?Py ?I i)) (fst (snd (f_opt qap ?Px ?Py ?I i)))"
  have agg: "aggregated_matrix svd qap X Y n_iter = py_sum (map ?f [0..<n_iter])"
    by (simp add: aggregated_matrix_def Let_def o_def)
  have "[0..<n_iter] = 0 # [Suc 0..<n_iter]" using pos by (rule upt_conv_Cons)
  then have "map ?f [0..<n_iter] = ?f 0 # map ?f [Suc 0..<n_iter]" by (simp only: list.map)
  with agg assms(1) have "py_sum (?f 0 # map ?f [Suc 0..<n_iter]) = Some mat" by (simp only:)
  then have "nrows mat = nrows (?f 0)" by (rule py_sum_shape [THEN conjunct1])
  also have "\<dots> = length (qap 0 ?Px ?Py)" by simp
  also have "\<dots> = nrows ?Px" using assms(2) by (simp add: qap_spec_def is_perm_def)
  also have "\<dots> = ncols Y"
    using shape_ortho_proj_ker [where svd = svd and X = X, OF assms(3)] assms(4) by simp
  finally show ?thesis .
qed

lemma wf_barycentered:
  assumes "wf_arr A" "0 < ncols A"
  shows "wf_arr (barycentered A)" "nrows (barycentered A) = nrows A"
    "ncols (barycentered A) = ncols A"
  by (simp_all add: barycentered_eq_mk [OF assms])

lemma first_cols_take_cols:
  assumes "wf_arr Y" "n \<le> length ind"
  shows "first_cols n (take_cols Y ind) = Y_matched Y ind n"
proof -
  have row: "take n (map (\<lambda>k. r ! k) ind) = map (\<lambda>j. r ! (ind ! j)) [0..<n]" for r :: vec
  proof (rule nth_equalityI)
    show "length (take n (map (\<lambda>k. r ! k) ind)) = length (map (\<lambda>j. r ! (ind ! j)) [0..<n])"
      using assms(2) by simp
  next
    fix j assume "j < length (take n (map (\<lambda>k. r ! k) ind))"
    then have "j < n" "j < length ind" using assms(2) by simp_all
    then show "take n (map (\<lambda>k. r ! k) ind) ! j = map (\<lambda>j. r ! (ind ! j)) [0..<n] ! j"
      by simp
  qed
  have "map (take n) (map (\<lambda>r. map (\<lambda>k. r ! k) ind) (rows Y))
      = map (\<lambda>i. map (\<lambda>j. ent Y i (ind ! j)) [0..<n]) [0..<nrows Y]"
  proof (rule nth_equalityI)
    show "length (map (take n) (map (\<lambda>r. map (\<lambda>k. r ! k) ind) (rows Y)))
        = length (map (\<lambda>i. map (\<lambda>j. ent Y i (ind ! j)) [0..<n]) [0..<nrows Y])"
      using assms(1) by (simp add: length_rows_wf)
  next
    fix i assume "i < length (map (take n) (map (\<lambda>r. map (\<lambda>k. r ! k) ind) (rows Y)))"
    then have i: "i < nrows Y" "i < length (rows Y)"
      using assms(1) by (simp_all add: length_rows_wf)
    show "map (take n) (map (\<lambda>r. map (\<lambda>k. r ! k) ind) (rows Y)) ! i
        = map (\<lambda>i. map (\<lambda>j. ent Y i (ind ! j)) [0..<n]) [0..<nrows Y] ! i"
      using i by (simp add: row ent_def)
  qed
  then show ?thesis
    using assms(2) by (simp add: first_cols_def take_cols_def Y_matched_def mk_def min_def)
qed

section \<open>The pipeline on the example inputs\<close>

lemmas arr_eval = matmul_def mT_def mk_def ent_def np_identity_def np_zeros_def np_block_def
  first_rows_def first_cols_def take_rows_def take_cols_def smul_def sadd_def madd_def
  np_trace_def np_array_def vsub_def bar_def upt_conv_Cons Let_def

lemma barycentered_X0: "barycentered X0 = X0"
  by (simp add: barycentered_def X0_def arr_eval)

lemma barycentered_Y0: "barycentered Y0 = Y0"
  by (simp add: barycentered_def Y0_def arr_eval)

lemma Y0_neq_Xd: "Y0 \<noteq> Xd"
  by (simp add: Y0_def Xd_def)

lemma ortho_proj_ker_Y0: "ortho_proj_ker svd0 Y0 = P0"
  by (simp add: ortho_proj_ker_def svd0_def Y0_neq_Xd S0_def V0_def P0_def arr_eval)

lemma pad_P0: "pad 4 4 P0 = P0"
  by (simp add: pad_def P0_def arr_eval)

lemma identity_4: "np_identity 4 = I4"
  by (simp add: I4_def arr_eval)

lemma take_rows_I4: "take_rows I4 (qap0 i P0 P0) = I4"
  by (simp add: qap0_def P0_def I4_def arr_eval)

lemma f_opt_P0: "f_opt qap0 P0 P0 I4 i = (1, I4, i)"
proof -
  note S = take_rows_I4 [of i]
  have t: "np_trace (matmul (matmul (matmul P0 I4) P0) (mT I4)) = 3"
    by (simp add: P0_def I4_def arr_eval)
  show ?thesis by (simp add: f_opt_def Let_def S t dim_def)
qed

lemma aggregated_X0_Y0: "aggregated_matrix svd0 qap0 X0 Y0 2 = Some M2"
proof -
  have "[0..<2] = [0, Suc 0]" by (simp add: upt_conv_Cons)
  moreover have "py_sum [smul 1 I4, smul 1 I4] = Some M2"
    by (simp add: py_sum_def I4_def M2_def arr_eval)
  ultimately show ?thesis
    by (simp add: aggregated_matrix_def Let_def ortho_proj_ker_X0 ortho_proj_ker_Y0
        X0_def [THEN arg_cong, of ncols] Y0_def [THEN arg_cong, of ncols]  pad_P0 identity_4 f_opt_P0 take_rows_I4)
qed

lemma lsa0_M2: "lsa0 M2 = ([0, 1, 2, 3], [0, 1, 2, 3])"
  by (simp add: lsa0_def M2_def upt_conv_Cons)

lemma gram_X0: "matmul X0 (mT X0) = G4"
  by (simp add: X0_def G4_def arr_eval)

lemma inv0_G4: "inv0 G4 = Inr G4i"
  by (simp add: inv0_def G4_def G4i_def)

lemma is_inverse_G4: "is_inverse G4 G4i"
  by (simp add: is_inverse_def G4_def G4i_def wf_arr_def arr_eval)

lemma L0_X0_Y0:
  "matmul (matmul (first_cols 4 (take_cols Y0 [0, Suc 0, 2, 3])) (mT X0)) G4i = L2"
  by (simp add: X0_def Y0_def G4i_def L2_def arr_eval)

lemma granni_X0_Y0:
  "granni_point_clouds svd0 qap0 lsa0 inv0 L2 X0 Y0 2
     = ([Centered, Centered, Projector, Projector, Trial 0, Trial 1, Assignment, Inversion],
        Inr (L2, L2))"
proof -
  have sh: "nrows X0 = 3" "ncols X0 = 4" "nrows Y0 = 3" "ncols Y0 = 4"
    by (simp_all add: X0_def Y0_def)
  have "[0..<2] = [0, 1]" by (simp add: upt_conv_Cons)
  then show ?thesis
    by (simp add: granni_point_clouds_def Let_def dim_def sh barycentered_X0 barycentered_Y0
        aggregated_X0_Y0 lsa0_M2 gram_X0 inv0_G4 L0_X0_Y0)
qed

lemma qap_spec_qap0: "qap_spec qap0"
  by (auto simp: qap_spec_def qap0_def is_perm_def)

lemma lsa_spec_lsa0: "lsa_spec lsa0"
  by (auto simp: lsa_spec_def lsa0_def is_perm_def)

lemma wf_X0: "wf_arr X0"
  by (simp add: X0_def wf_arr_def)

lemma wf_Y0: "wf_arr Y0"
  by (simp add: Y0_def wf_arr_def)

lemma Y_matched_Y0: "Y_matched Y0 [0, Suc 0, 2, 3] 4 = Y0"
  by (simp add: Y_matched_def Y0_def arr_eval)

section \<open>Degenerate samples\<close>

lemma sum_lessThan_3: "(\<Sum>l<(3::nat). f l) = f 0 + f 1 + (f 2 :: real)"
  by (simp add: eval_nat_numeral)

lemma sum_lessThan_2: "(\<Sum>l<(2::nat). f l) = f 0 + (f 1 :: real)"
  by (simp add: eval_nat_numeral)

lemma ent_matmul_3:
  assumes "ncols A = 3" "i < nrows A" "j < ncols B"
  shows "ent (matmul A B) i j = ent A i 0 * ent B 0 j + ent A i 1 * ent B 1 j + ent A i 2 * ent B 2 j"
  using assms by (simp add: ent_matmul sum_lessThan_3)

lemma det3_matmul:
  assumes "nrows A = 3" "ncols A = 3" "ncols B = 3"
  shows "det3 (matmul A B) = det3 A * det3 B"
proof -
  have e: "ent (matmul A B) i j
      = ent A i 0 * ent B 0 j + ent A i 1 * ent B 1 j + ent A i 2 * ent B 2 j"
    if "i < 3" "j < 3" for i j
    using that assms by (simp add: ent_matmul_3)
  show ?thesis
    unfolding det3_def [of "matmul A B"]
    by (simp only: e [of 0 0] e [of 0 1] e [of 0 2] e [of 1 0] e [of 1 1] e [of 1 2]
        e [of 2 0] e [of 2 1] e [of 2 2] det3_def [of A] det3_def [of B]) (simp add: algebra_simps)
qed

lemma det3_identity: "det3 (np_identity 3) = 1"
  by (simp add: det3_def)

lemma det3_zero_singular:
  assumes "nrows G = 3" "ncols G = 3" "det3 G = 0"
  shows "singular G"
  unfolding singular_def
proof (intro allI notI)
  fix B assume "is_inverse G B"
  then have "ncols B = 3" and "matmul G B = np_identity 3"
    using assms(1) by (simp_all add: is_inverse_def)
  then have "det3 G * det3 B = 1"
    using det3_matmul [OF assms(1,2), of B] det3_identity by simp
  then show False using assms(3) by simp
qed

lemma det3_gram_few_columns:
  assumes "nrows A = 3" "ncols A < 3"
  shows "det3 (matmul A (mT A)) = 0"
proof -
  have e: "ent (matmul A (mT A)) i j = (\<Sum>l<ncols A. ent A i l * ent A j l)"
    if "i < 3" "j < 3" for i j
    using that assms(1) by (simp add: ent_matmul)
  consider "ncols A = 0" | "ncols A = 1" | "ncols A = 2" using assms(2) by linarith
  then show ?thesis
  proof cases
    case 1
    then show ?thesis by (simp add: det3_def e)
  next
    case 2
    then show ?thesis by (simp add: det3_def e algebra_simps)
  next
    case 3
    then show ?thesis by (simp add: det3_def e sum_lessThan_2 algebra_simps)
  qed
qed

lemma few_points_singular:
  assumes "nrows A = 3" "ncols A < 3"
  shows "singular (matmul A (mT A))"
  by (rule det3_zero_singular) (simp_all add: assms det3_gram_few_columns)

lemma inv_spec_singular:
  assumes "inv_spec linv G" "singular G"
  shows "linv G = Inl LinAlgError"
  using assms by (cases "linv G") (auto simp: inv_spec_def singular_def)

lemma wf_Xd: "wf_arr Xd"
  by (simp add: Xd_def wf_arr_def)

lemma barycentered_Xd: "barycentered Xd = Xd"
  by (simp add: barycentered_def Xd_def arr_eval)

lemma gram_Xd: "matmul Xd (mT Xd) = Gd"
  by (simp add: Xd_def Gd_def arr_eval)

lemma singular_Gd: "singular Gd"
  by (rule det3_zero_singular) (simp_all add: Gd_def det3_def ent_def)

lemma inv0_Gd: "inv0 Gd = Inl LinAlgError"
  by (simp add: inv0_def Gd_def)

lemma is_svd_Xd: "is_svd Xd (svd0 Xd)"
  apply (simp add: is_svd_def svd0_def orthogonal_def)
  apply (intro conjI)
            apply (simp_all add: U0_def V0_def Sd_def Xd_def wf_arr_def)
      apply (simp_all add: matmul_def mT_def np_identity_def diag_rect_def mk_def ent_def upt_conv_Cons)
  done

section \<open>Ellipsoid fit: correctness\<close>

lemma cancel_left:
  assumes "matmul A B = np_identity n" "ncols A = nrows B" "wf_arr R" "nrows R = n"
  shows "matmul A (matmul B R) = R"
proof -
  have "matmul A (matmul B R) = matmul (matmul A B) R"
    by (rule matmul_assoc [symmetric]) (rule assms(2))
  then show ?thesis using assms by (simp add: matmul_identity_left)
qed

lemma diag_rect_square: "length s = d \<Longrightarrow> diag_rect d d s = np_diag s"
  by (simp add: diag_rect_def np_diag_def)

lemma orthogonalD:
  assumes "orthogonal Q"
  shows "wf_arr Q" "ncols Q = nrows Q" "matmul Q (mT Q) = np_identity (nrows Q)"
    "matmul (mT Q) Q = np_identity (nrows Q)"
  using assms by (simp_all add: orthogonal_def)

text \<open>\<open>X X\<^sup>T = L L\<^sup>T\<close> for \<open>L = U diag(S)\<close>.\<close>

lemma gram_thin:
  assumes "is_svd X (U, S, V)" "nrows X \<le> ncols X"
  shows "matmul X (mT X) = matmul (matmul U (np_diag S)) (mT (matmul U (np_diag S)))"
proof -
  let ?d = "nrows X"
  let ?L = "matmul U (np_diag S)" and ?K = "first_rows ?d V"
  have V: "orthogonal V" and nV: "nrows V = ncols X" and lS: "length S = ?d"
    using assms by (simp_all add: is_svd_def min_def)
  have le: "?d \<le> nrows V" using assms(2) nV by simp
  note K = first_rows_orthonormal [OF V le]
  have X: "X = matmul ?L ?K" by (rule thin_svd [OF assms])
  have "matmul (matmul ?L ?K) (mT (matmul ?L ?K))
      = matmul (matmul ?L ?K) (matmul (mT ?K) (mT ?L))"
    by (simp add: mT_matmul lS K(2))
  also have "\<dots> = matmul ?L (matmul ?K (matmul (mT ?K) (mT ?L)))"
    by (rule matmul_assoc) (simp add: lS K(2))
  also have "matmul ?K (matmul (mT ?K) (mT ?L)) = mT ?L"
    by (rule cancel_left [OF K(4)]) (simp_all add: lS)
  finally show ?thesis using X by simp
qed

lemma dotp_adjoint:
  assumes "length u = nrows A" "length w = ncols A"
  shows "dotp u (matvec A w) = dotp (matvec (mT A) u) w"
proof -
  have "dotp u (matvec A w) = (\<Sum>i<nrows A. u ! i * (\<Sum>j<ncols A. ent A i j * w ! j))"
    using assms by (simp add: dotp_def sum_list_tab matvec_nth)
  also have "\<dots> = (\<Sum>i<nrows A. \<Sum>j<ncols A. ent A i j * u ! i * w ! j)"
    by (simp add: sum_distrib_left mult_ac)
  also have "\<dots> = (\<Sum>j<ncols A. \<Sum>i<nrows A. ent A i j * u ! i * w ! j)"
    by (rule sum.swap)
  also have "\<dots> = (\<Sum>j<ncols A. (\<Sum>i<nrows A. ent (mT A) j i * u ! i) * w ! j)"
    by (simp add: sum_distrib_right)
  also have "\<dots> = dotp (matvec (mT A) u) w"
    by (simp add: dotp_def sum_list_tab matvec_nth)
  finally show ?thesis .
qed

lemma dotp_diag_nonneg:
  assumes "length z = length s" "\<forall>x \<in> set s. 0 \<le> x"
  shows "0 \<le> dotp z (matvec (np_diag s) z)"
proof -
  have "matvec (np_diag s) z ! i = s ! i * z ! i" if "i < length s" for i
  proof -
    have "matvec (np_diag s) z ! i = (\<Sum>j<length s. (if i = j then s ! i else 0) * z ! j)"
      using that by (simp add: matvec_nth)
    also have "\<dots> = (\<Sum>j<length s. if j = i then s ! i * z ! j else 0)"
      by (intro sum.cong) simp_all
    also have "\<dots> = s ! i * z ! i" using that by simp
    finally show ?thesis .
  qed
  then have "dotp z (matvec (np_diag s) z) = (\<Sum>i<length s. z ! i * (s ! i * z ! i))"
    using assms(1) by (simp add: dotp_def sum_list_tab)
  also have "\<dots> = (\<Sum>i<length s. s ! i * (z ! i)\<^sup>2)"
    by (simp add: power2_eq_square mult_ac)
  also have "0 \<le> \<dots>"
    using assms(2) by (intro sum_nonneg mult_nonneg_nonneg) simp_all
  finally show ?thesis .
qed

lemma psd_fit_unfold:
  assumes "svd X = (Ux, Sx, Vx)" "svd Y = (Uy, Sy, Vy)"
    "svd (matmul (mT (matmul Ux (np_diag Sx))) (matmul Uy (np_diag Sy))) = (W, Sw, Vw)"
    "linv (matmul Ux (np_diag Sx)) = Inr Li"
  shows "psd_fit svd linv X Y
       = Inr (matmul (matmul (mT Li) (matmul (matmul W (np_diag Sw)) (mT W))) Li)"
  using assms by (simp add: psd_fit_def Let_def)

text \<open>The algebra of the fit, for square arrays of one size \<open>d\<close>.\<close>

lemma psd_fit_algebra:
  assumes W: "orthogonal W" "nrows W = d" and V: "orthogonal V" "nrows V = d"
    and s: "length s = d" "\<forall>x \<in> set s. 0 \<le> x"
    and Lx: "wf_arr Lx" "nrows Lx = d" "ncols Lx = d"
    and Ly: "wf_arr Ly" "nrows Ly = d" "ncols Ly = d"
    and Li: "is_inverse Lx Li"
    and Lxy: "matmul (mT Lx) Ly = matmul (matmul W (np_diag s)) V"
  defines "P \<equiv> matmul (matmul (mT Li) (matmul (matmul W (np_diag s)) (mT W))) Li"
  shows "psd P"
    and "matmul (matmul P (matmul Lx (mT Lx))) (mT P) = matmul Ly (mT Ly)"
    and "nrows P = d \<and> ncols P = d"
proof -
  let ?D = "np_diag s"
  note W' = orthogonalD [OF W(1)] and V' = orthogonalD [OF V(1)]
  have wfLi: "wf_arr Li" and rLi: "nrows Li = d" and cLi: "ncols Li = d"
    and LxLi: "matmul Lx Li = np_identity d" and LiLx: "matmul Li Lx = np_identity d"
    using Li Lx by (simp_all add: is_inverse_def)
  have dims [simp]: "nrows W = d" "ncols W = d" "nrows V = d" "ncols V = d"
    "nrows Lx = d" "ncols Lx = d" "nrows Ly = d" "ncols Ly = d" "nrows Li = d" "ncols Li = d"
    "length s = d"
    using W V W' V' Lx Ly rLi cLi s by simp_all
  have wfs [simp]: "wf_arr W" "wf_arr V" "wf_arr Lx" "wf_arr Ly" "wf_arr Li"
    using W' V' Lx Ly wfLi by simp_all
  have WTW: "matmul (mT W) W = np_identity d" and VVT: "matmul V (mT V) = np_identity d"
    using W' V' by simp_all
  have LxTLiT: "matmul (mT Lx) (mT Li) = np_identity d"
    using LiLx by (simp add: mT_matmul [symmetric])
  have LiTLxT: "matmul (mT Li) (mT Lx) = np_identity d"
    using LxLi by (simp add: mT_matmul [symmetric])
  have c1: "matmul Li (matmul Lx R) = R" if "wf_arr R" "nrows R = d" for R
    by (rule cancel_left [OF LiLx]) (simp_all add: that)
  have c2: "matmul (mT Lx) (matmul (mT Li) R) = R" if "wf_arr R" "nrows R = d" for R
    by (rule cancel_left [OF LxTLiT]) (simp_all add: that)
  have c3: "matmul (mT Li) (matmul (mT Lx) R) = R" if "wf_arr R" "nrows R = d" for R
    by (rule cancel_left [OF LiTLxT]) (simp_all add: that)
  have c5: "matmul (mT W) (matmul W R) = R" if "wf_arr R" "nrows R = d" for R
    by (rule cancel_left [OF WTW]) (simp_all add: that)
  have c6: "matmul V (matmul (mT V) R) = R" if "wf_arr R" "nrows R = d" for R
    by (rule cancel_left [OF VVT]) (simp_all add: that)
  define P0 where "P0 = matmul (matmul W ?D) (mT W)"
  have P0: "P0 = matmul W (matmul ?D (mT W))"
    by (simp add: P0_def matmul_assoc)
  have dP0 [simp]: "nrows P0 = d" "ncols P0 = d" "wf_arr P0"
    by (simp_all add: P0_def)
  have P0T: "mT P0 = P0"
    by (simp add: P0 mT_matmul T_T matmul_assoc)
  have P: "P = matmul (mT Li) (matmul P0 Li)"
    by (simp add: P_def P0_def matmul_assoc)
  have PT: "mT P = P"
    by (simp add: P P0 mT_matmul T_T matmul_assoc)
  have sq: "matmul P0 P0 = matmul (matmul (mT Lx) Ly) (mT (matmul (mT Lx) Ly))"
  proof -
    have "matmul P0 P0 = matmul W (matmul ?D (matmul ?D (mT W)))"
      by (simp add: P0 matmul_assoc c5)
    moreover have "matmul (matmul (matmul W ?D) V) (mT (matmul (matmul W ?D) V))
        = matmul W (matmul ?D (matmul ?D (mT W)))"
      by (simp add: mT_matmul matmul_assoc c6)
    ultimately show ?thesis using Lxy by simp
  qed
  have "matmul (matmul P (matmul Lx (mT Lx))) (mT P)
      = matmul (mT Li) (matmul (matmul P0 P0) Li)"
    unfolding PT by (simp add: P matmul_assoc c1 c2)
  also have "\<dots> = matmul Ly (mT Ly)"
    unfolding sq
    by (simp add: mT_matmul T_T matmul_assoc c3 LxLi matmul_identity_right)
  finally show "matmul (matmul P (matmul Lx (mT Lx))) (mT P) = matmul Ly (mT Ly)" .
  have nonneg: "0 \<le> dotp v (matvec P v)" if "length v = ncols P" for v
  proof -
    have lv: "length v = d" using that by (simp add: P)
    define z where "z = matvec (mT W) (matvec Li v)"
    have lz: "length z = d" by (simp add: z_def)
    have "matvec P v = matvec (mT Li) (matvec W (matvec ?D z))"
      by (simp add: P P0 matvec_matmul z_def)
    then have "dotp v (matvec P v) = dotp (matvec (mT (mT Li)) v) (matvec W (matvec ?D z))"
      by (simp add: dotp_adjoint lv)
    also have "\<dots> = dotp (matvec Li v) (matvec W (matvec ?D z))"
      by (simp add: T_T)
    also have "\<dots> = dotp z (matvec ?D z)"
      by (simp add: dotp_adjoint z_def)
    finally show ?thesis
      using dotp_diag_nonneg [of z s] lz s by simp
  qed
  show "psd P"
    unfolding psd_def symmetric_def using PT nonneg by blast
  show "nrows P = d \<and> ncols P = d"
    by (simp add: P)
qed

text \<open>
  C10. For \<open>X\<close> and \<open>Y\<close> with \<open>d\<close> rows and at least \<open>d\<close> columns, \<open>X\<close> of full rank,
  \<open>psd_fit X Y\<close> returns a symmetric positive semidefinite \<open>d \<times> d\<close> array \<open>P\<close> with
  \<open>P (X X\<^sup>T) P\<^sup>T = Y Y\<^sup>T\<close>. (Full rank of \<open>Y\<close> is not needed.)
\<close>

theorem psd_fit_maps_ellipsoid:
  assumes svdX: "is_svd X (svd X)" and svdY: "is_svd Y (svd Y)"
    and svdL: "is_svd (matmul (mT (left_factor svd X)) (left_factor svd Y))
                 (svd (matmul (mT (left_factor svd X)) (left_factor svd Y)))"
    and inv: "inv_spec linv (left_factor svd X)"
    and dims: "nrows Y = nrows X" "nrows X \<le> ncols X" "nrows Y \<le> ncols Y"
    and rank: "\<forall>x \<in> set (fst (snd (svd X))). 0 < x"
  shows "\<exists>P. psd_fit svd linv X Y = Inr P \<and> nrows P = nrows X \<and> ncols P = nrows X \<and> psd P
           \<and> matmul (matmul P (matmul X (mT X))) (mT P) = matmul Y (mT Y)"
proof -
  let ?d = "nrows X"
  obtain Ux Sx Vx where sx: "svd X = (Ux, Sx, Vx)" by (cases "svd X") auto
  obtain Uy Sy Vy where sy: "svd Y = (Uy, Sy, Vy)" by (cases "svd Y") auto
  define Lx where "Lx = matmul Ux (np_diag Sx)"
  define Ly where "Ly = matmul Uy (np_diag Sy)"
  have lfx: "left_factor svd X = Lx" and lfy: "left_factor svd Y = Ly"
    by (simp_all add: left_factor_def sx sy Lx_def Ly_def)
  obtain W Sw Vw where sl: "svd (matmul (mT Lx) Ly) = (W, Sw, Vw)"
    by (cases "svd (matmul (mT Lx) Ly)") auto
  have X: "is_svd X (Ux, Sx, Vx)" and Y: "is_svd Y (Uy, Sy, Vy)"
    and L: "is_svd (matmul (mT Lx) Ly) (W, Sw, Vw)"
    using svdX svdY svdL by (simp_all add: sx sy sl lfx lfy)
  have Ux: "orthogonal Ux" "nrows Ux = ?d" and lSx: "length Sx = ?d"
    using X dims by (simp_all add: is_svd_def min_def)
  have Uy: "orthogonal Uy" "nrows Uy = ?d" and lSy: "length Sy = ?d"
    using Y dims by (simp_all add: is_svd_def min_def)
  have shx: "wf_arr Lx" "nrows Lx = ?d" "ncols Lx = ?d"
    using Ux lSx by (simp_all add: Lx_def)
  have shy: "wf_arr Ly" "nrows Ly = ?d" "ncols Ly = ?d"
    using Uy lSy by (simp_all add: Ly_def)
  have W: "orthogonal W" "nrows W = ?d" and Vw: "orthogonal Vw" "nrows Vw = ?d"
    and lSw: "length Sw = ?d" and pos: "\<forall>x \<in> set Sw. 0 \<le> x"
    and Lxy0: "matmul (mT Lx) Ly = matmul (matmul W (diag_rect ?d ?d Sw)) Vw"
    using L shx shy by (simp_all add: is_svd_def)
  have Lxy: "matmul (mT Lx) Ly = matmul (matmul W (np_diag Sw)) Vw"
    using Lxy0 by (simp add: diag_rect_square [OF lSw])
  have nz: "\<forall>x \<in> set Sx. x \<noteq> 0" using rank sx by auto
  have "is_inverse Lx (matmul (np_diag (map inverse Sx)) (mT Ux))"
    unfolding Lx_def by (rule scaled_orthogonal_inverse [OF Ux(1)]) (simp_all add: lSx Ux nz)
  then have "\<not> singular Lx" by (auto simp: singular_def)
  then obtain Li where Li: "linv Lx = Inr Li" "is_inverse Lx Li"
    using inv by (cases "linv Lx") (auto simp: inv_spec_def lfx)
  define P where "P = matmul (matmul (mT Li) (matmul (matmul W (np_diag Sw)) (mT W))) Li"
  have res: "psd_fit svd linv X Y = Inr P"
    unfolding P_def
    by (rule psd_fit_unfold [OF sx sy]) (use sl Li(1) in \<open>simp_all add: Lx_def Ly_def\<close>)
  note alg = psd_fit_algebra [OF W Vw lSw pos shx shy Li(2) Lxy, folded P_def]
  have "matmul X (mT X) = matmul Lx (mT Lx)"
    unfolding Lx_def by (rule gram_thin [OF X dims(2)])
  moreover have "matmul Y (mT Y) = matmul Ly (mT Ly)"
    unfolding Ly_def by (rule gram_thin [OF Y dims(3)])
  ultimately show ?thesis using res alg by simp
qed

lemma svd1_X0: "svd1 X0 = (U0, S0, V0)"
  by (simp add: svd1_def)

lemma svd1_Y0: "svd1 Y0 = (U0, [4, 4, 4], V0)"
  by (simp add: svd1_def X0_def Y0_def)

lemma svd1_L8: "svd1 L8 = (U0, [8, 8, 8], U0)"
  by (simp add: svd1_def X0_def Y0_def L8_def)

lemma is_svd1_X0: "is_svd X0 (svd1 X0)"
  using is_svd_X0 by (simp add: svd1_X0 svd0_def X0_neq_Xd)

lemma is_svd1_Y0: "is_svd Y0 (svd1 Y0)"
  apply (simp add: is_svd_def svd1_Y0 orthogonal_def)
  apply (intro conjI)
            apply (simp_all add: U0_def V0_def Y0_def wf_arr_def)
      apply (simp_all add: matmul_def mT_def np_identity_def diag_rect_def mk_def ent_def upt_conv_Cons)
  done

lemma is_svd1_L8: "is_svd L8 (svd1 L8)"
  apply (simp add: is_svd_def svd1_L8 orthogonal_def)
  apply (intro conjI)
            apply (simp_all add: U0_def L8_def wf_arr_def)
      apply (simp_all add: matmul_def mT_def np_identity_def diag_rect_def mk_def ent_def upt_conv_Cons)
  done

lemma left_factor_X0: "left_factor svd1 X0 = L2"
  by (simp add: left_factor_def svd1_X0 U0_def S0_def L2_def np_diag_def arr_eval)

lemma left_factor_Y0: "left_factor svd1 Y0 = L4"
  by (simp add: left_factor_def svd1_Y0 U0_def L4_def np_diag_def arr_eval)

lemma L2T_L4: "matmul (mT L2) L4 = L8"
  by (simp add: L2_def L4_def L8_def arr_eval)

lemma inv_spec_inv1: "inv_spec inv1 L2"
  by (simp add: inv_spec_def inv1_def is_inverse_def L2_def Lh_def wf_arr_def arr_eval)

lemma psd_fit_X0_Y0: "psd_fit svd1 inv1 X0 Y0 = Inr L2"
proof -
  have "psd_fit svd1 inv1 X0 Y0
      = Inr (matmul (matmul (mT Lh) (matmul (matmul U0 (np_diag [8, 8, 8])) (mT U0))) Lh)"
  proof (rule psd_fit_unfold [OF svd1_X0 svd1_Y0])
    have a: "matmul U0 (np_diag S0) = L2" "matmul U0 (np_diag [4, 4, 4]) = L4"
      using left_factor_X0 left_factor_Y0 by (simp_all add: left_factor_def svd1_X0 svd1_Y0)
    show "svd1 (matmul (mT (matmul U0 (np_diag S0))) (matmul U0 (np_diag [4, 4, 4])))
        = (U0, [8, 8, 8], U0)"
      by (simp add: a L2T_L4 svd1_L8)
    show "inv1 (matmul U0 (np_diag S0)) = Inr Lh"
      by (simp add: a inv1_def)
  qed
  also have "matmul (matmul (mT Lh) (matmul (matmul U0 (np_diag [8, 8, 8])) (mT U0))) Lh = L2"
    by (simp add: Lh_def U0_def L2_def np_diag_def arr_eval)
  finally show ?thesis .
qed

theorem psd_fit_maps_ellipsoid_witness:
  "is_svd X0 (svd1 X0) \<and> is_svd Y0 (svd1 Y0)
   \<and> left_factor svd1 X0 = L2 \<and> left_factor svd1 Y0 = L4 \<and> matmul (mT L2) L4 = L8
   \<and> is_svd L8 (svd1 L8) \<and> inv_spec inv1 L2
   \<and> nrows Y0 = nrows X0 \<and> nrows X0 \<le> ncols X0 \<and> nrows Y0 \<le> ncols Y0
   \<and> fst (snd (svd1 X0)) = [2, 2, 2]
   \<and> psd_fit svd1 inv1 X0 Y0 = Inr L2 \<and> psd L2
   \<and> matmul (matmul L2 (matmul X0 (mT X0))) (mT L2) = matmul Y0 (mT Y0)"
proof -
  have svdL: "is_svd (matmul (mT (left_factor svd1 X0)) (left_factor svd1 Y0))
                 (svd1 (matmul (mT (left_factor svd1 X0)) (left_factor svd1 Y0)))"
    using is_svd1_L8 by (simp add: left_factor_X0 left_factor_Y0 L2T_L4)
  have inv: "inv_spec inv1 (left_factor svd1 X0)"
    using inv_spec_inv1 by (simp add: left_factor_X0)
  have dims: "nrows Y0 = nrows X0" "nrows X0 \<le> ncols X0" "nrows Y0 \<le> ncols Y0"
    by (simp_all add: X0_def Y0_def)
  have sv: "fst (snd (svd1 X0)) = [2, 2, 2]" by (simp add: svd1_X0 S0_def)
  then have rank: "\<forall>x \<in> set (fst (snd (svd1 X0))). 0 < x" by simp
  from psd_fit_maps_ellipsoid [OF is_svd1_X0 is_svd1_Y0 svdL inv dims rank]
  have "psd L2 \<and> matmul (matmul L2 (matmul X0 (mT X0))) (mT L2) = matmul Y0 (mT Y0)"
    by (simp add: psd_fit_X0_Y0)
  then show ?thesis
    using is_svd1_X0 is_svd1_Y0 left_factor_X0 left_factor_Y0 L2T_L4 is_svd1_L8 inv_spec_inv1
      dims sv psd_fit_X0_Y0 by simp
qed

section \<open>The pipeline on a sample with an unmatched point\<close>

lemma X0_neq_Y5: "X0 \<noteq> Y5"
  by (simp add: X0_def Y5_def)

lemma is_svd_Y5: "is_svd Y5 (svd2 Y5)"
  apply (simp add: is_svd_def svd2_def orthogonal_def)
  apply (intro conjI)
            apply (simp_all add: U0_def V5_def Y5_def wf_arr_def)
      apply (simp_all add: matmul_def mT_def np_identity_def diag_rect_def mk_def ent_def upt_conv_Cons)
  done

lemma is_svd2_X0: "is_svd X0 (svd2 X0)"
  using is_svd_X0 by (simp add: svd2_def svd0_def X0_neq_Y5 X0_neq_Xd)

lemma barycentered_Y5: "barycentered Y5 = Y5"
  by (simp add: barycentered_def Y5_def arr_eval)

lemma ortho_proj_ker_svd2_X0: "ortho_proj_ker svd2 X0 = P0"
  using ortho_proj_ker_X0 by (simp add: ortho_proj_ker_def svd2_def svd0_def X0_neq_Y5 X0_neq_Xd)

lemma ortho_proj_ker_Y5: "ortho_proj_ker svd2 Y5 = P5"
  by (simp add: ortho_proj_ker_def svd2_def V5_def P5_def arr_eval)

lemma pad_P0_5: "pad 4 5 P0 = Q5"
  by (simp add: pad_def P0_def Q5_def arr_eval)

lemma identity_5: "np_identity 5 = I5"
  by (simp add: I5_def arr_eval)

lemma take_rows_I5: "take_rows I5 (qap1 i Q5 P5) = T5"
  by (simp add: qap1_def Q5_def p5_def I5_def T5_def arr_eval)

lemma trace_5: "np_trace (matmul (matmul (matmul Q5 T5) P5) (mT T5)) = 3"
  by (simp add: Q5_def T5_def P5_def arr_eval)

lemma f_opt_5: "f_opt qap1 Q5 P5 I5 i = (1, T5, i)"
  by (simp add: f_opt_def Let_def take_rows_I5 trace_5 dim_def)

lemma aggregated_X0_Y5: "aggregated_matrix svd2 qap1 X0 Y5 2 = Some M5"
proof -
  have "[0..<2] = [0, Suc 0]" by (simp add: upt_conv_Cons)
  moreover have "py_sum [smul 1 T5, smul 1 T5] = Some M5"
    by (simp add: py_sum_def T5_def M5_def arr_eval)
  moreover have "ncols X0 = 4" "ncols Y5 = 5" by (simp_all add: X0_def Y5_def)
  ultimately show ?thesis
    by (simp add: aggregated_matrix_def Let_def ortho_proj_ker_svd2_X0 ortho_proj_ker_Y5
        pad_P0_5 identity_5 f_opt_5 take_rows_I5)
qed

lemma lsa1_M5: "snd (lsa1 M5) = p5"
  by (simp add: lsa1_def M5_def)

lemma Y_matched_Y5: "Y_matched Y5 p5 4 = Ym5"
  by (simp add: Y_matched_def Y5_def p5_def Ym5_def arr_eval)

lemma L0_X0_Y5: "matmul (matmul Ym5 (mT X0)) G4i = L3"
  by (simp add: Ym5_def X0_def G4i_def L3_def arr_eval)

lemma qap_spec_qap1: "qap_spec qap1"
  by (auto simp: qap_spec_def qap1_def is_perm_def p5_def)

lemma lsa_spec_lsa1: "lsa_spec lsa1"
  by (auto simp: lsa_spec_def lsa1_def is_perm_def p5_def)

section \<open>The recovered map\<close>

lemma granni_no_trials:
  assumes "nrows X = 3" "nrows Y = 3" "0 < ncols X" "ncols X \<le> ncols Y"
  shows "granni_point_clouds svd qap lsa linv L X Y 0
       = ([Centered, Centered, Projector, Projector], Inl ValueError)"
  using assms
  by (simp add: granni_point_clouds_def Let_def dim_def aggregated_matrix_None [THEN iffD2])

lemma granni_run:
  assumes "nrows X = 3" "nrows Y = 3" "0 < ncols X" "ncols X \<le> ncols Y" "0 < n_iter"
  shows "\<exists>mat. aggregated_matrix svd qap (barycentered X) (barycentered Y) n_iter = Some mat
       \<and> granni_point_clouds svd qap lsa linv L X Y n_iter
         = ([Centered, Centered, Projector, Projector] @ map Trial [0..<n_iter]
              @ [Assignment, Inversion],
            case linv (matmul (barycentered X) (mT (barycentered X))) of
              Inl e \<Rightarrow> Inl e
            | Inr Xi \<Rightarrow> Inr (L, matmul (matmul (first_cols (ncols X)
                  (take_cols (barycentered Y) (snd (lsa mat)))) (mT (barycentered X))) Xi))"
proof (cases "aggregated_matrix svd qap (barycentered X) (barycentered Y) n_iter")
  case None
  then show ?thesis using assms(5) by (simp add: aggregated_matrix_None)
next
  case (Some mat)
  then show ?thesis
    using assms
    by (simp add: granni_point_clouds_def Let_def dim_def split: prod.splits sum.splits)
qed

text \<open>
  C3. When the assertions pass, at least one trial runs and \<open>X X\<^sup>T\<close> of the centered \<open>X\<close>
  has an inverse, the pipeline returns \<open>L0 = Y_matched X\<^sup>T (X X\<^sup>T)\<^sup>-\<^sup>1\<close> for the centered
  \<open>X\<close> and \<open>Y\<close>, where \<open>Y_matched\<close> holds the columns of \<open>Y\<close> picked by the first \<open>n\<close> entries
  of the \<open>col_ind\<close> that the linear assignment returns for the aggregated matrix.
\<close>

theorem recovered_map_closed_form:
  assumes asserts: "nrows X = 3" "nrows Y = 3" "0 < ncols X" "ncols X \<le> ncols Y"
    and trials: "0 < n_iter"
    and wf: "wf_arr X" "wf_arr Y"
    and qap: "qap_spec qap" and lsa: "lsa_spec lsa"
    and svd: "is_svd (barycentered X) (svd (barycentered X))"
    and inv: "inv_spec linv (matmul (barycentered X) (mT (barycentered X)))"
    and reg: "\<not> singular (matmul (barycentered X) (mT (barycentered X)))"
  shows "\<exists>mat Xi. aggregated_matrix svd qap (barycentered X) (barycentered Y) n_iter = Some mat
           \<and> linv (matmul (barycentered X) (mT (barycentered X))) = Inr Xi
           \<and> is_inverse (matmul (barycentered X) (mT (barycentered X))) Xi
           \<and> granni_point_clouds svd qap lsa linv L X Y n_iter
             = ([Centered, Centered, Projector, Projector] @ map Trial [0..<n_iter]
                  @ [Assignment, Inversion],
                Inr (L, matmul (matmul (Y_matched (barycentered Y) (snd (lsa mat)) (ncols X))
                          (mT (barycentered X))) Xi))"
proof -
  let ?X = "barycentered X" and ?Y = "barycentered Y"
  let ?G = "matmul ?X (mT ?X)"
  obtain Xi where Xi: "linv ?G = Inr Xi" "is_inverse ?G Xi"
    using inv reg by (cases "linv ?G") (auto simp: inv_spec_def)
  from granni_run [OF asserts trials, of svd qap lsa linv L] obtain mat
    where mat: "aggregated_matrix svd qap ?X ?Y n_iter = Some mat"
      and run: "granni_point_clouds svd qap lsa linv L X Y n_iter
         = ([Centered, Centered, Projector, Projector] @ map Trial [0..<n_iter]
              @ [Assignment, Inversion],
            Inr (L, matmul (matmul (first_cols (ncols X)
                  (take_cols ?Y (snd (lsa mat)))) (mT ?X)) Xi))"
    by (auto simp: Xi(1))
  have m: "0 < ncols Y" using asserts by simp
  note bX = wf_barycentered [OF wf(1) asserts(3)] and bY = wf_barycentered [OF wf(2) m]
  have "nrows mat = ncols ?Y"
    by (rule aggregated_matrix_rows [OF mat qap svd]) (simp add: bX bY asserts)
  then have "length (snd (lsa mat)) = ncols Y"
    using lsa by (simp add: lsa_spec_def is_perm_def bY)
  then have "first_cols (ncols X) (take_cols ?Y (snd (lsa mat)))
      = Y_matched ?Y (snd (lsa mat)) (ncols X)"
    using asserts by (intro first_cols_take_cols bY) simp
  with mat Xi run show ?thesis by auto
qed

lemma wf_Y5: "wf_arr Y5"
  by (simp add: Y5_def wf_arr_def)

lemma not_singular_G4: "\<not> singular G4"
  using is_inverse_G4 by (auto simp: singular_def)

theorem recovered_map_closed_form_witness:
  "nrows X0 = 3 \<and> nrows Y5 = 3 \<and> 0 < ncols X0 \<and> ncols X0 \<le> ncols Y5 \<and> ncols X0 < ncols Y5
   \<and> wf_arr X0 \<and> wf_arr Y5 \<and> qap_spec qap1 \<and> lsa_spec lsa1
   \<and> is_svd (barycentered X0) (svd2 (barycentered X0))
   \<and> is_svd (barycentered Y5) (svd2 (barycentered Y5))
   \<and> inv_spec inv0 (matmul (barycentered X0) (mT (barycentered X0)))
   \<and> \<not> singular (matmul (barycentered X0) (mT (barycentered X0)))
   \<and> aggregated_matrix svd2 qap1 (barycentered X0) (barycentered Y5) 2 = Some M5
   \<and> snd (lsa1 M5) = [2, 4, 1, 3, 0]
   \<and> granni_point_clouds svd2 qap1 lsa1 inv0 U0 X0 Y5 2
     = ([Centered, Centered, Projector, Projector, Trial 0, Trial 1, Assignment, Inversion],
        Inr (U0, L3))"
proof -
  have a: "nrows X0 = 3" "nrows Y5 = 3" "0 < ncols X0" "ncols X0 \<le> ncols Y5"
    and lt: "ncols X0 < ncols Y5" and n: "ncols X0 = 4"
    by (simp_all add: X0_def Y5_def)
  have svd: "is_svd (barycentered X0) (svd2 (barycentered X0))"
    using is_svd2_X0 by (simp add: barycentered_X0)
  have svdY: "is_svd (barycentered Y5) (svd2 (barycentered Y5))"
    using is_svd_Y5 by (simp add: barycentered_Y5)
  have inv: "inv_spec inv0 (matmul (barycentered X0) (mT (barycentered X0)))"
    using is_inverse_G4 by (simp add: inv_spec_def barycentered_X0 gram_X0 inv0_G4)
  have reg: "\<not> singular (matmul (barycentered X0) (mT (barycentered X0)))"
    using not_singular_G4 by (simp add: barycentered_X0 gram_X0)
  have agg: "aggregated_matrix svd2 qap1 (barycentered X0) (barycentered Y5) 2 = Some M5"
    by (simp add: barycentered_X0 barycentered_Y5 aggregated_X0_Y5)
  have tr: "map Trial [0..<2] = [Trial 0, Trial 1]" by (simp add: upt_conv_Cons)
  have two: "(0::nat) < 2" by simp
  from recovered_map_closed_form [where svd = svd2 and linv = inv0 and L = U0,
      OF a two wf_X0 wf_Y5 qap_spec_qap1 lsa_spec_lsa1 svd inv reg]
  have "granni_point_clouds svd2 qap1 lsa1 inv0 U0 X0 Y5 2
     = ([Centered, Centered, Projector, Projector, Trial 0, Trial 1, Assignment, Inversion],
        Inr (U0, L3))"
    by (auto simp: aggregated_X0_Y5 tr barycentered_X0 barycentered_Y5 gram_X0 inv0_G4 lsa1_M5 n
        Y_matched_Y5 L0_X0_Y5)
  then show ?thesis
    using a lt wf_X0 wf_Y5 qap_spec_qap1 lsa_spec_lsa1 svd svdY inv reg agg lsa1_M5
    by (simp add: p5_def)
qed

section \<open>Failure on degenerate samples\<close>

text \<open>
  C7, as the code has it. The code has no check for a degenerate sample. When the
  assertions pass and \<open>X\<close> is not empty, every trial runs, and with at least one trial the
  assignment is solved and \<open>np.linalg.inv\<close> is called on \<open>X X\<^sup>T\<close> of the centered \<open>X\<close>: the
  pipeline fails exactly when that call raises, with the call's error and after the
  trials, and returns a map when the call returns an array. With no trial it has already
  failed with \<open>ValueError\<close>. A sample of fewer than three points, or any singular
  \<open>X X\<^sup>T\<close>, fails with \<open>LinAlgError\<close> when the inversion raises on every singular array.
\<close>

theorem degenerate_geometry_fails:
  assumes "nrows X = 3" "nrows Y = 3" "0 < ncols X" "ncols X \<le> ncols Y"
  shows "fst (granni_point_clouds svd qap lsa linv L X Y n_iter)
           = [Centered, Centered, Projector, Projector] @ map Trial [0..<n_iter]
               @ (if n_iter = 0 then [] else [Assignment, Inversion])
       \<and> (n_iter = 0 \<longrightarrow> snd (granni_point_clouds svd qap lsa linv L X Y n_iter) = Inl ValueError)
       \<and> (0 < n_iter \<longrightarrow>
            (\<forall>e. linv (matmul (barycentered X) (mT (barycentered X))) = Inl e
               \<longrightarrow> snd (granni_point_clouds svd qap lsa linv L X Y n_iter) = Inl e)
          \<and> (\<forall>Xi. linv (matmul (barycentered X) (mT (barycentered X))) = Inr Xi
               \<longrightarrow> (\<exists>L0. snd (granni_point_clouds svd qap lsa linv L X Y n_iter) = Inr (L, L0))))
       \<and> (0 < n_iter \<and> wf_arr X
            \<and> inv_spec linv (matmul (barycentered X) (mT (barycentered X)))
            \<and> (ncols X < 3 \<or> ncols Y < 3
                \<or> singular (matmul (barycentered X) (mT (barycentered X))))
            \<longrightarrow> snd (granni_point_clouds svd qap lsa linv L X Y n_iter) = Inl LinAlgError)"
proof (cases "n_iter = 0")
  case True
  then show ?thesis
    using granni_no_trials [OF assms, of svd qap lsa linv L] by simp
next
  case False
  let ?G = "matmul (barycentered X) (mT (barycentered X))"
  let ?r = "granni_point_clouds svd qap lsa linv L X Y n_iter"
  from False have pos: "0 < n_iter" by simp
  from granni_run [OF assms pos, of svd qap lsa linv L] obtain mat
    where run: "?r = ([Centered, Centered, Projector, Projector] @ map Trial [0..<n_iter]
              @ [Assignment, Inversion],
            case linv ?G of
              Inl e \<Rightarrow> Inl e
            | Inr Xi \<Rightarrow> Inr (L, matmul (matmul (first_cols (ncols X)
                  (take_cols (barycentered Y) (snd (lsa mat)))) (mT (barycentered X))) Xi))"
    by blast
  have steps: "fst ?r = [Centered, Centered, Projector, Projector] @ map Trial [0..<n_iter]
               @ (if n_iter = 0 then [] else [Assignment, Inversion])"
    using False by (simp add: run)
  have err: "snd ?r = Inl e" if "linv ?G = Inl e" for e
    using that by (simp add: run)
  have ok: "\<exists>L0. snd ?r = Inr (L, L0)" if "linv ?G = Inr Xi" for Xi
    using that by (simp add: run)
  have deg: "snd ?r = Inl LinAlgError"
    if wf: "wf_arr X" and inv: "inv_spec linv ?G"
      and d: "ncols X < 3 \<or> ncols Y < 3 \<or> singular ?G"
  proof -
    note bX = wf_barycentered [OF wf assms(3)]
    have "singular ?G"
    proof (cases "ncols X < 3")
      case True
      show ?thesis by (rule few_points_singular) (use True assms bX in simp_all)
    next
      case False
      with d assms show ?thesis by auto
    qed
    then have "linv ?G = Inl LinAlgError" by (rule inv_spec_singular [OF inv])
    then show ?thesis by (rule err)
  qed
  show ?thesis using steps False err ok deg by blast
qed

lemma barycentered_Y1: "barycentered Y1 = Z1"
  by (simp add: barycentered_def Y1_def Z1_def arr_eval)

lemma wf_Y1: "wf_arr Y1"
  by (simp add: Y1_def wf_arr_def)

lemma gram_Z1: "matmul Z1 (mT Z1) = Z3"
  by (simp add: Z1_def Z3_def arr_eval)

lemma singular_Z3: "singular Z3"
  by (rule det3_zero_singular) (simp_all add: Z3_def det3_def ent_def)

lemma inv0_Z3: "inv0 Z3 = Inl LinAlgError"
  by (simp add: inv0_def Z3_def)

lemma is_svd_Z1: "is_svd Z1 (svd3 Z1)"
  apply (simp add: is_svd_def svd3_def orthogonal_def Z1_def)
  apply (intro conjI)
            apply (simp_all add: U0_def N1_def wf_arr_def)
      apply (simp_all add: matmul_def mT_def np_identity_def diag_rect_def mk_def ent_def upt_conv_Cons)
  done

lemma is_svd3_X0: "is_svd X0 (svd3 X0)"
  using is_svd_X0 by (simp add: svd3_def svd0_def X0_neq_Xd X0_def [THEN arg_cong, of ncols])

theorem degenerate_geometry_fails_witness:
  "nrows Xd = 3 \<and> nrows X0 = 3 \<and> 0 < ncols Xd \<and> ncols Xd \<le> ncols X0 \<and> wf_arr Xd
   \<and> inv_spec inv0 (matmul (barycentered Xd) (mT (barycentered Xd)))
   \<and> singular (matmul (barycentered Xd) (mT (barycentered Xd)))
   \<and> granni_point_clouds svd0 qap0 lsa0 inv0 L2 Xd X0 2
       = ([Centered, Centered, Projector, Projector, Trial 0, Trial 1, Assignment, Inversion],
          Inl LinAlgError)
   \<and> granni_point_clouds svd0 qap0 lsa0 inv0 L2 Xd X0 0
       = ([Centered, Centered, Projector, Projector], Inl ValueError)
   \<and> nrows Y1 = 3 \<and> 0 < ncols Y1 \<and> ncols Y1 \<le> ncols X0 \<and> ncols Y1 < 3 \<and> wf_arr Y1
   \<and> is_svd (barycentered Y1) (svd3 (barycentered Y1)) \<and> is_svd X0 (svd3 X0)
   \<and> inv_spec inv0 (matmul (barycentered Y1) (mT (barycentered Y1)))
   \<and> granni_point_clouds svd3 qap0 lsa0 inv0 L2 Y1 X0 2
       = ([Centered, Centered, Projector, Projector, Trial 0, Trial 1, Assignment, Inversion],
          Inl LinAlgError)
   \<and> inv0 (matmul (barycentered X0) (mT (barycentered X0))) = Inr G4i
   \<and> (\<exists>L0. snd (granni_point_clouds svd0 qap0 lsa0 inv0 L2 X0 Y0 2) = Inr (L2, L0))"
proof -
  have tr: "map Trial [0..<2] = [Trial 0, Trial 1]" by (simp add: upt_conv_Cons)
  have two: "(0::nat) < 2" by simp
  have a: "nrows Xd = 3" "nrows X0 = 3" "0 < ncols Xd" "ncols Xd \<le> ncols X0"
    by (simp_all add: Xd_def X0_def)
  have sing: "singular (matmul (barycentered Xd) (mT (barycentered Xd)))"
    using singular_Gd by (simp add: barycentered_Xd gram_Xd)
  have inv: "inv_spec inv0 (matmul (barycentered Xd) (mT (barycentered Xd)))"
    using singular_Gd by (simp add: inv_spec_def barycentered_Xd gram_Xd inv0_Gd)
  note d = degenerate_geometry_fails [where svd = svd0 and qap = qap0 and lsa = lsa0
      and linv = inv0 and L = L2, OF a]
  have r1: "granni_point_clouds svd0 qap0 lsa0 inv0 L2 Xd X0 2
       = ([Centered, Centered, Projector, Projector, Trial 0, Trial 1, Assignment, Inversion],
          Inl LinAlgError)"
    using d [of 2] wf_Xd inv sing by (simp add: prod_eq_iff tr)
  have r2: "granni_point_clouds svd0 qap0 lsa0 inv0 L2 Xd X0 0
       = ([Centered, Centered, Projector, Projector], Inl ValueError)"
    using d [of 0] by (simp add: prod_eq_iff)
  have b: "nrows Y1 = 3" "nrows X0 = 3" "0 < ncols Y1" "ncols Y1 \<le> ncols X0"
    and few: "ncols Y1 < 3"
    by (simp_all add: Y1_def X0_def)
  have inv1: "inv_spec inv0 (matmul (barycentered Y1) (mT (barycentered Y1)))"
    using singular_Z3 by (simp add: inv_spec_def barycentered_Y1 gram_Z1 inv0_Z3)
  have r3: "granni_point_clouds svd3 qap0 lsa0 inv0 L2 Y1 X0 2
       = ([Centered, Centered, Projector, Projector, Trial 0, Trial 1, Assignment, Inversion],
          Inl LinAlgError)"
    using degenerate_geometry_fails [where svd = svd3 and qap = qap0 and lsa = lsa0
        and linv = inv0 and L = L2 and n_iter = 2, OF b] wf_Y1 inv1 few
    by (simp add: prod_eq_iff tr)
  have s1: "is_svd (barycentered Y1) (svd3 (barycentered Y1))"
    using is_svd_Z1 by (simp add: barycentered_Y1)
  have c: "nrows X0 = 3" "nrows Y0 = 3" "0 < ncols X0" "ncols X0 \<le> ncols Y0"
    by (simp_all add: X0_def Y0_def)
  have i0: "inv0 (matmul (barycentered X0) (mT (barycentered X0))) = Inr G4i"
    by (simp add: barycentered_X0 gram_X0 inv0_G4)
  have r4: "\<exists>L0. snd (granni_point_clouds svd0 qap0 lsa0 inv0 L2 X0 Y0 2) = Inr (L2, L0)"
    using degenerate_geometry_fails [where svd = svd0 and qap = qap0 and lsa = lsa0
        and linv = inv0 and L = L2 and n_iter = 2, OF c] i0 two
    by blast
  show ?thesis
    using a wf_Xd inv sing r1 r2 b(1,3,4) few wf_Y1 s1 is_svd3_X0 inv1 r3 i0 r4 by simp
qed

text \<open>
  C7 as stated fails. For the coplanar sample \<open>Xd\<close> the product \<open>X X\<^sup>T\<close> is singular, and
  the pipeline fails only at the final inversion: both trials have run before.
\<close>

theorem degenerate_geometry_counterexample:
  "is_svd Xd (svd0 Xd) \<and> is_svd X0 (svd0 X0)
   \<and> singular (matmul (barycentered Xd) (mT (barycentered Xd)))
   \<and> snd (granni_point_clouds svd0 qap0 lsa0 inv0 L2 Xd X0 2) = Inl LinAlgError
   \<and> Trial 0 \<in> set (fst (granni_point_clouds svd0 qap0 lsa0 inv0 L2 Xd X0 2))
   \<and> Trial 1 \<in> set (fst (granni_point_clouds svd0 qap0 lsa0 inv0 L2 Xd X0 2))"
proof -
  have sh: "nrows Xd = 3" "nrows X0 = 3" "0 < ncols Xd" "ncols Xd \<le> ncols X0"
    by (simp_all add: Xd_def X0_def)
  have two: "(0::nat) < 2" by simp
  have inv: "inv0 (matmul (barycentered Xd) (mT (barycentered Xd))) = Inl LinAlgError"
    by (simp add: barycentered_Xd gram_Xd inv0_Gd)
  have tr: "map Trial [0..<2] = [Trial 0, Trial 1]" by (simp add: upt_conv_Cons)
  have "granni_point_clouds svd0 qap0 lsa0 inv0 L2 Xd X0 2
       = ([Centered, Centered, Projector, Projector, Trial 0, Trial 1, Assignment, Inversion],
          Inl LinAlgError)"
    using granni_run [where linv = inv0 and svd = svd0 and qap = qap0 and lsa = lsa0
        and L = L2, OF sh two] by (auto simp: tr inv)
  then show ?thesis
    using is_svd_Xd is_svd_X0 singular_Gd by (simp add: barycentered_Xd gram_Xd)
qed

end
